theory Spec2Isabelle
  imports Complex_Main
begin

section \<open>The data of auto_checkin.py\<close>

text \<open>
  The program is one Python class, \<^verbatim>\<open>KurobbsClient\<close>, and a \<^verbatim>\<open>main\<close> function. Every
  remote call goes through \<^verbatim>\<open>make_request\<close>; its reply is decoded by pydantic into a
  \<^verbatim>\<open>Response\<close>. The field \<^verbatim>\<open>data\<close> is \<^verbatim>\<open>Optional[Any]\<close>: a decoded JSON value, with
  Python's \<^verbatim>\<open>None\<close> for a missing or null field.

  Python strings are carried as their UTF-8 bytes (\<^typ>\<open>string\<close>). The program
  concatenates and joins them, tests them for emptiness and looks for braces in them, which
  UTF-8 preserves; where it indexes or slices a string, the bytes are grouped into code
  points first (\<open>code_points\<close> below).
\<close>

datatype json =
    JNull
  | JBool bool
  | JInt int
  | JFloat real
  | JStr string
  | JList "json list"
  | JDict "(string \<times> json) list"

record response =
  code :: int
  msg :: string
  success :: "bool option"
  data :: json

text \<open>
  The exceptions the program can meet. \<^verbatim>\<open>KurobbsClientException\<close> is the program's own
  class and carries its message; \<open>RequestException\<close> is what \<^verbatim>\<open>requests.post\<close> raises when
  the endpoint cannot be reached, \<open>ValidationError\<close> what \<^verbatim>\<open>Response.model_validate_json\<close>
  raises on a body that is not a \<^verbatim>\<open>Response\<close>; the others are Python's built-in errors
  of subscripting and attribute access.
\<close>

datatype py_error =
    KurobbsClientException string
  | RequestException
  | ValidationError
  | TypeError
  | KeyError
  | IndexError
  | AttributeError
  | UnboundLocalError

datatype endpoint =
    FIND_ROLE_LIST_API_URL
  | SIGN_URL
  | USER_SIGN_URL
  | FORUM_LIST_URL
  | LIKE_URL
  | GET_POST_DETAIL_URL
  | SHARE_TASK_URL

fun url :: "endpoint \<Rightarrow> string" where
  "url FIND_ROLE_LIST_API_URL = ''https://api.kurobbs.com/user/role/findRoleList''"
| "url SIGN_URL = ''https://api.kurobbs.com/encourage/signIn/v2''"
| "url USER_SIGN_URL = ''https://api.kurobbs.com/user/signIn''"
| "url FORUM_LIST_URL = ''https://api.kurobbs.com/forum/list''"
| "url LIKE_URL = ''https://api.kurobbs.com/forum/like''"
| "url GET_POST_DETAIL_URL = ''https://api.kurobbs.com/forum/getPostDetail''"
| "url SHARE_TASK_URL = ''https://api.kurobbs.com/encourage/level/shareTask''"

text \<open>
  What the remote side does with one POST: the endpoint is unreachable, the body does not
  decode, or the body decodes into a \<^verbatim>\<open>Response\<close>.
\<close>

datatype reply = Unreachable | Unparseable | Reply response

datatype log_level = LogInfo | LogWarning | LogError | LogException

text \<open>
  The observable effects of a run, in the order they happen: a remote call (endpoint, form
  data and what came back), a \<^verbatim>\<open>time.sleep(random.uniform(lo, hi))\<close> with its two bounds, a
  log record, and a call of \<^verbatim>\<open>send_notification\<close> with its text. The log records are
  those at level \<^verbatim>\<open>INFO\<close> and above, which \<^verbatim>\<open>configure_logger\<close> always lets through, with
  the message as the handler receives it; the records at level \<^verbatim>\<open>DEBUG\<close> are emitted only
  when the variable \<^verbatim>\<open>DEBUG\<close> is set, take no part in any decision and are not followed.
\<close>

datatype event =
    Call endpoint json reply
  | Sleep real real
  | Log log_level string
  | Notify string

text \<open>
  The world outside the client: the remote server (a state of any type \<open>'s\<close>, stepped by
  a function \<open>serve\<close> that every operation takes as its first argument), the month that
  \<^verbatim>\<open>datetime.now(ZoneInfo('Asia/Shanghai')).month\<close> reads, and the effects so far.
  \<open>format_field\<close> is a piece of the Python library that the program reaches through loguru
  (see \<open>str_format\<close> below): the text that \<^verbatim>\<open>str.format\<close> gives for a replacement field
  on the keyword argument \<^verbatim>\<open>exc_info=False\<close> when the field is more than the bare name
  (an attribute, an index, a conversion or a format specification), and \<open>None\<close> when
  evaluating the field raises. The program never changes it.
\<close>

record 's world =
  server :: 's
  beijing_month :: nat
  format_field :: "string \<Rightarrow> string option"
  trace :: "event list"

text \<open>
  The fields of \<^verbatim>\<open>KurobbsClient\<close>. \<^verbatim>\<open>result\<close> is a Python dict, which keeps its keys in
  insertion order: an association list. \<^verbatim>\<open>exceptions\<close> only ever holds
  \<^verbatim>\<open>KurobbsClientException\<close> objects, and the program only reads them through \<^verbatim>\<open>str\<close>:
  the list holds their messages. The header set (\<^verbatim>\<open>get_headers\<close>, with the SHA-256
  identity string of \<^verbatim>\<open>generate_fixed_string\<close>) is fixed at construction, is sent with
  every call and takes no part in any decision; it is left to the server function.
\<close>

record client =
  uid :: string
  token :: "string option"
  ip :: string
  result :: "(string \<times> string) list"
  exceptions :: "string list"

type_synonym 's server_fun = "'s \<Rightarrow> endpoint \<Rightarrow> json \<Rightarrow> reply \<times> 's"

type_synonym ('s, 'a) action = "'s world \<Rightarrow> (py_error + 'a) \<times> 's world"

section \<open>Python's operations on the decoded values\<close>

text \<open>The truth value of \<^verbatim>\<open>resp.success\<close>, an \<^verbatim>\<open>Optional[bool]\<close>.\<close>

definition truthy :: "bool option \<Rightarrow> bool" where
  "truthy b = (b = Some True)"

text \<open>\<^verbatim>\<open>obj[key]\<close> with a string key.\<close>

fun subscript_key :: "json \<Rightarrow> string \<Rightarrow> py_error + json" where
  "subscript_key (JDict kvs) k = (case map_of kvs k of None \<Rightarrow> Inl KeyError | Some v \<Rightarrow> Inr v)"
| "subscript_key _ k = Inl TypeError"

text \<open>
  The code points of a string: a byte from \<open>0x80\<close> to \<open>0xBF\<close> continues the code point of
  the byte before it.
\<close>

definition continuation_byte :: "char \<Rightarrow> bool" where
  "continuation_byte c = (128 \<le> (of_char c :: nat) \<and> (of_char c :: nat) < 192)"

fun code_points :: "string \<Rightarrow> string list" where
  "code_points [] = []"
| "code_points (c # cs) =
     (case code_points cs of
        [] \<Rightarrow> [[c]]
      | p # ps \<Rightarrow> if continuation_byte (hd p) then (c # p) # ps else [c] # p # ps)"

text \<open>\<^verbatim>\<open>obj[i]\<close> with an index \<open>i \<ge> 0\<close>. The keys of a decoded JSON object are strings, so an
  integer key is never found; a string is indexed by code point.\<close>

fun subscript_idx :: "json \<Rightarrow> nat \<Rightarrow> py_error + json" where
  "subscript_idx (JList xs) i = (if i < length xs then Inr (xs ! i) else Inl IndexError)"
| "subscript_idx (JStr s) i =
     (if i < length (code_points s) then Inr (JStr (code_points s ! i)) else Inl IndexError)"
| "subscript_idx (JDict kvs) i = Inl KeyError"
| "subscript_idx _ i = Inl TypeError"

text \<open>\<^verbatim>\<open>obj.get(key, default)\<close>: only a dict has the method.\<close>

fun dict_get :: "json \<Rightarrow> string \<Rightarrow> json \<Rightarrow> py_error + json" where
  "dict_get (JDict kvs) k d = (case map_of kvs k of None \<Rightarrow> Inr d | Some v \<Rightarrow> Inr v)"
| "dict_get _ k d = Inl AttributeError"

text \<open>\<^verbatim>\<open>value == n\<close> for an integer literal \<open>n\<close>.\<close>

fun py_eq_int :: "json \<Rightarrow> int \<Rightarrow> bool" where
  "py_eq_int (JInt m) n = (m = n)"
| "py_eq_int (JFloat x) n = (x = of_int n)"
| "py_eq_int (JBool b) n = ((if b then 1 else 0) = n)"
| "py_eq_int _ n = False"

text \<open>\<^verbatim>\<open>f"{m:02d}"\<close> for a month \<open>m\<close> (1 to 12): two decimal digits.\<close>

definition fmt02d :: "nat \<Rightarrow> string" where
  "fmt02d m = [char_of (48 + m div 10), char_of (48 + m mod 10)]"

text \<open>\<^verbatim>\<open>d[k] = v\<close> on an insertion-ordered dict: a key already present keeps its place.\<close>

fun dict_set :: "'k \<Rightarrow> 'v \<Rightarrow> ('k \<times> 'v) list \<Rightarrow> ('k \<times> 'v) list" where
  "dict_set k v [] = [(k, v)]"
| "dict_set k v (p # ps) = (if fst p = k then (k, v) # ps else p # dict_set k v ps)"

definition dict_values :: "('k \<times> 'v) list \<Rightarrow> 'v list" where
  "dict_values d = map snd d"

text \<open>\<^verbatim>\<open>sep.join(xs)\<close>.\<close>

fun join :: "string \<Rightarrow> string list \<Rightarrow> string" where
  "join sep [] = []"
| "join sep [x] = x"
| "join sep (x # y # ys) = x @ sep @ join sep (y # ys)"

text \<open>Sequencing of computations that can raise: the first exception ends the sequence.\<close>

definition ebind :: "py_error + 'a \<Rightarrow> ('a \<Rightarrow> py_error + 'b) \<Rightarrow> py_error + 'b" where
  "ebind r f = (case r of Inl e \<Rightarrow> Inl e | Inr a \<Rightarrow> f a)"

definition py_bind :: "('s, 'a) action \<Rightarrow> ('a \<Rightarrow> ('s, 'b) action) \<Rightarrow> ('s, 'b) action" where
  "py_bind m f w = (case m w of (Inl e, w') \<Rightarrow> (Inl e, w') | (Inr a, w') \<Rightarrow> f a w')"

definition py_pure :: "py_error + 'a \<Rightarrow> ('s, 'a) action" where
  "py_pure r w = (r, w)"

section \<open>The string literals of the source\<close>

text \<open>
  The messages are Chinese text; each constant is the UTF-8 encoding of the literal, given
  here by its Unicode code points.
  \<^item> \<open>checkin_success_message\<close>: \<^verbatim>\<open>U+7B7E U+5230 U+5956 U+52B1 U+7B7E U+5230 U+6210 U+529F\<close>
  \<^item> \<open>checkin_failure_message\<close>: \<^verbatim>\<open>U+7B7E U+5230 U+5956 U+52B1 U+7B7E U+5230 U+5931 U+8D25\<close>
  \<^item> \<open>sign_in_success_message\<close>: \<^verbatim>\<open>U+793E U+533A U+7B7E U+5230 U+6210 U+529F\<close>
  \<^item> \<open>sign_in_failure_message\<close>: \<^verbatim>\<open>U+793E U+533A U+7B7E U+5230 U+5931 U+8D25\<close>
  \<^item> \<open>forum_list_failure_message\<close>: \<^verbatim>\<open>U+83B7 U+53D6 U+5E16 U+5B50 U+5217 U+8868 U+5931 U+8D25\<close>
  \<^item> \<open>forum_list_success_message\<close>: \<^verbatim>\<open>U+83B7 U+53D6 U+5E16 U+5B50 U+5217 U+8868 U+6210 U+529F\<close>
  \<^item> \<open>post_detail_failure_message\<close>: \<^verbatim>\<open>U+83B7 U+53D6 U+5E16 U+5B50 U+8BE6 U+60C5 U+5931 U+8D25\<close>
  \<^item> \<open>post_detail_success_message\<close>: \<^verbatim>\<open>U+83B7 U+53D6 U+5E16 U+5B50 U+8BE6 U+60C5 U+6210 U+529F\<close>
  \<^item> \<open>share_failure_message\<close>: \<^verbatim>\<open>U+5206 U+4EAB U+5E16 U+5B50 U+5931 U+8D25\<close>
  \<^item> \<open>share_success_message\<close>: \<^verbatim>\<open>U+5206 U+4EAB U+5E16 U+5B50 U+6210 U+529F\<close>
  \<^item> \<open>like_failure_message\<close>: \<^verbatim>\<open>U+70B9 U+8D5E U+5E16 U+5B50 U+5931 U+8D25\<close>
  \<^item> \<open>like_success_message\<close>: \<^verbatim>\<open>U+70B9 U+8D5E U+5E16 U+5B50 U+6210 U+529F\<close>
\<close>

definition checkin_success_message :: string where
  "checkin_success_message =
    [CHR 0xE7, CHR 0xAD, CHR 0xBE, CHR 0xE5, CHR 0x88, CHR 0xB0, CHR 0xE5, CHR 0xA5, CHR 0x96,
     CHR 0xE5, CHR 0x8A, CHR 0xB1, CHR 0xE7, CHR 0xAD, CHR 0xBE, CHR 0xE5, CHR 0x88, CHR 0xB0,
     CHR 0xE6, CHR 0x88, CHR 0x90, CHR 0xE5, CHR 0x8A, CHR 0x9F]"

definition checkin_failure_message :: string where
  "checkin_failure_message =
    [CHR 0xE7, CHR 0xAD, CHR 0xBE, CHR 0xE5, CHR 0x88, CHR 0xB0, CHR 0xE5, CHR 0xA5, CHR 0x96,
     CHR 0xE5, CHR 0x8A, CHR 0xB1, CHR 0xE7, CHR 0xAD, CHR 0xBE, CHR 0xE5, CHR 0x88, CHR 0xB0,
     CHR 0xE5, CHR 0xA4, CHR 0xB1, CHR 0xE8, CHR 0xB4, CHR 0xA5]"

definition sign_in_success_message :: string where
  "sign_in_success_message =
    [CHR 0xE7, CHR 0xA4, CHR 0xBE, CHR 0xE5, CHR 0x8C, CHR 0xBA, CHR 0xE7, CHR 0xAD, CHR 0xBE,
     CHR 0xE5, CHR 0x88, CHR 0xB0, CHR 0xE6, CHR 0x88, CHR 0x90, CHR 0xE5, CHR 0x8A, CHR 0x9F]"

definition sign_in_failure_message :: string where
  "sign_in_failure_message =
    [CHR 0xE7, CHR 0xA4, CHR 0xBE, CHR 0xE5, CHR 0x8C, CHR 0xBA, CHR 0xE7, CHR 0xAD, CHR 0xBE,
     CHR 0xE5, CHR 0x88, CHR 0xB0, CHR 0xE5, CHR 0xA4, CHR 0xB1, CHR 0xE8, CHR 0xB4, CHR 0xA5]"

definition forum_list_failure_message :: string where
  "forum_list_failure_message =
    [CHR 0xE8, CHR 0x8E, CHR 0xB7, CHR 0xE5, CHR 0x8F, CHR 0x96, CHR 0xE5, CHR 0xB8, CHR 0x96,
     CHR 0xE5, CHR 0xAD, CHR 0x90, CHR 0xE5, CHR 0x88, CHR 0x97, CHR 0xE8, CHR 0xA1, CHR 0xA8,
     CHR 0xE5, CHR 0xA4, CHR 0xB1, CHR 0xE8, CHR 0xB4, CHR 0xA5]"

definition forum_list_success_message :: string where
  "forum_list_success_message =
    [CHR 0xE8, CHR 0x8E, CHR 0xB7, CHR 0xE5, CHR 0x8F, CHR 0x96, CHR 0xE5, CHR 0xB8, CHR 0x96,
     CHR 0xE5, CHR 0xAD, CHR 0x90, CHR 0xE5, CHR 0x88, CHR 0x97, CHR 0xE8, CHR 0xA1, CHR 0xA8,
     CHR 0xE6, CHR 0x88, CHR 0x90, CHR 0xE5, CHR 0x8A, CHR 0x9F]"

definition post_detail_failure_message :: string where
  "post_detail_failure_message =
    [CHR 0xE8, CHR 0x8E, CHR 0xB7, CHR 0xE5, CHR 0x8F, CHR 0x96, CHR 0xE5, CHR 0xB8, CHR 0x96,
     CHR 0xE5, CHR 0xAD, CHR 0x90, CHR 0xE8, CHR 0xAF, CHR 0xA6, CHR 0xE6, CHR 0x83, CHR 0x85,
     CHR 0xE5, CHR 0xA4, CHR 0xB1, CHR 0xE8, CHR 0xB4, CHR 0xA5]"

definition post_detail_success_message :: string where
  "post_detail_success_message =
    [CHR 0xE8, CHR 0x8E, CHR 0xB7, CHR 0xE5, CHR 0x8F, CHR 0x96, CHR 0xE5, CHR 0xB8, CHR 0x96,
     CHR 0xE5, CHR 0xAD, CHR 0x90, CHR 0xE8, CHR 0xAF, CHR 0xA6, CHR 0xE6, CHR 0x83, CHR 0x85,
     CHR 0xE6, CHR 0x88, CHR 0x90, CHR 0xE5, CHR 0x8A, CHR 0x9F]"

definition share_failure_message :: string where
  "share_failure_message =
    [CHR 0xE5, CHR 0x88, CHR 0x86, CHR 0xE4, CHR 0xBA, CHR 0xAB, CHR 0xE5, CHR 0xB8, CHR 0x96,
     CHR 0xE5, CHR 0xAD, CHR 0x90, CHR 0xE5, CHR 0xA4, CHR 0xB1, CHR 0xE8, CHR 0xB4, CHR 0xA5]"

definition share_success_message :: string where
  "share_success_message =
    [CHR 0xE5, CHR 0x88, CHR 0x86, CHR 0xE4, CHR 0xBA, CHR 0xAB, CHR 0xE5, CHR 0xB8, CHR 0x96,
     CHR 0xE5, CHR 0xAD, CHR 0x90, CHR 0xE6, CHR 0x88, CHR 0x90, CHR 0xE5, CHR 0x8A, CHR 0x9F]"

definition like_failure_message :: string where
  "like_failure_message =
    [CHR 0xE7, CHR 0x82, CHR 0xB9, CHR 0xE8, CHR 0xB5, CHR 0x9E, CHR 0xE5, CHR 0xB8, CHR 0x96,
     CHR 0xE5, CHR 0xAD, CHR 0x90, CHR 0xE5, CHR 0xA4, CHR 0xB1, CHR 0xE8, CHR 0xB4, CHR 0xA5]"

definition like_success_message :: string where
  "like_success_message =
    [CHR 0xE7, CHR 0x82, CHR 0xB9, CHR 0xE8, CHR 0xB5, CHR 0x9E, CHR 0xE5, CHR 0xB8, CHR 0x96,
     CHR 0xE5, CHR 0xAD, CHR 0x90, CHR 0xE6, CHR 0x88, CHR 0x90, CHR 0xE5, CHR 0x8A, CHR 0x9F]"

text \<open>The f-string \<^verbatim>\<open>f'{failure_message}, {resp.msg}'\<close>.\<close>

definition failure_text :: "string \<Rightarrow> response \<Rightarrow> string" where
  "failure_text failure_message resp = failure_message @ '', '' @ msg resp"

section \<open>The remote calls\<close>

text \<open>
  \<^verbatim>\<open>make_request\<close>: one POST. Both the failure of \<^verbatim>\<open>requests.post\<close> and the failure of
  \<^verbatim>\<open>Response.model_validate_json\<close> raise out of the method; nothing in it catches them.
\<close>

definition make_request :: "'s server_fun \<Rightarrow> endpoint \<Rightarrow> json \<Rightarrow> ('s, response) action" where
  "make_request serve ep d w =
     (case serve (server w) ep d of
        (rp, s') \<Rightarrow>
          ((case rp of
              Unreachable \<Rightarrow> Inl RequestException
            | Unparseable \<Rightarrow> Inl ValidationError
            | Reply res \<Rightarrow> Inr res),
           w\<lparr>server := s', trace := trace w @ [Call ep d rp]\<rparr>))"

definition get_user_game_list :: "'s server_fun \<Rightarrow> int \<Rightarrow> ('s, json) action" where
  "get_user_game_list serve game_id =
     py_bind (make_request serve FIND_ROLE_LIST_API_URL (JDict [(''gameId'', JInt game_id)]))
       (\<lambda>res. py_pure (Inr (data res)))"

text \<open>The form data of \<^verbatim>\<open>get_forum_list\<close>, from the role list.\<close>

definition get_forum_list_data :: "json \<Rightarrow> py_error + json" where
  "get_forum_list_data user_game_list =
     ebind (subscript_idx user_game_list 0) (\<lambda>role.
     ebind (dict_get role ''gameId'' (JInt 2)) (\<lambda>gameId.
     Inr (JDict [(''forumId'', JInt (if py_eq_int gameId 2 then 2 else 9)),
                 (''gameId'', gameId),
                 (''pageIndex'', JInt 1),
                 (''pageSize'', JInt 20),
                 (''searchType'', JInt 2),
                 (''timeType'', JInt 0),
                 (''topicId'', JInt 0)])))"

definition get_forum_list :: "'s server_fun \<Rightarrow> ('s, response) action" where
  "get_forum_list serve =
     py_bind (get_user_game_list serve 3) (\<lambda>user_game_list.
     py_bind (py_pure (get_forum_list_data user_game_list)) (make_request serve FORUM_LIST_URL))"

text \<open>The form data of \<^verbatim>\<open>get_post_detail\<close>, from the forum listing.\<close>

definition get_post_detail_data :: "response \<Rightarrow> nat \<Rightarrow> py_error + json" where
  "get_post_detail_data rsp_forumList post_index =
     ebind (subscript_key (data rsp_forumList) ''postList'') (\<lambda>postList.
     ebind (subscript_idx postList post_index) (\<lambda>post.
     ebind (subscript_key post ''postId'') (\<lambda>postId.
     Inr (JDict [(''isOnlyPublisher'', JInt 0),
                 (''postId'', postId),
                 (''showOrderType'', JInt 2)]))))"

definition get_post_detail :: "'s server_fun \<Rightarrow> response \<Rightarrow> nat \<Rightarrow> ('s, response) action" where
  "get_post_detail serve rsp_forumList post_index =
     py_bind (py_pure (get_post_detail_data rsp_forumList post_index))
       (make_request serve GET_POST_DETAIL_URL)"

text \<open>\<^verbatim>\<open>rsp_PostDetail.data["postDetail"][key]\<close>.\<close>

definition postDetail_field :: "response \<Rightarrow> string \<Rightarrow> py_error + json" where
  "postDetail_field rsp_PostDetail k =
     ebind (subscript_key (data rsp_PostDetail) ''postDetail'') (\<lambda>postDetail. subscript_key postDetail k)"

text \<open>The form data of \<^verbatim>\<open>like_post\<close>: the dict display, evaluated entry by entry.\<close>

definition like_post_data :: "response \<Rightarrow> int \<Rightarrow> py_error + json" where
  "like_post_data rsp_PostDetail operateType =
     ebind (postDetail_field rsp_PostDetail ''gameForumId'') (\<lambda>forumId.
     ebind (subscript_key (data rsp_PostDetail) ''gameId'') (\<lambda>gameId.
     ebind (postDetail_field rsp_PostDetail ''id'') (\<lambda>postId.
     ebind (postDetail_field rsp_PostDetail ''postType'') (\<lambda>postType.
     ebind (postDetail_field rsp_PostDetail ''postUserId'') (\<lambda>toUserId.
     Inr (JDict [(''forumId'', forumId),
                 (''gameId'', gameId),
                 (''likeType'', JInt 1),
                 (''operateType'', JInt operateType),
                 (''postCommentId'', JInt 0),
                 (''postCommentReplyId'', JInt 0),
                 (''postId'', postId),
                 (''postType'', postType),
                 (''toUserId'', toUserId)]))))))"

definition like_post :: "'s server_fun \<Rightarrow> response \<Rightarrow> int \<Rightarrow> ('s, response) action" where
  "like_post serve rsp_PostDetail operateType =
     py_bind (py_pure (like_post_data rsp_PostDetail operateType)) (make_request serve LIKE_URL)"

definition share_post_data :: "response \<Rightarrow> py_error + json" where
  "share_post_data rsp_PostDetail =
     ebind (subscript_key (data rsp_PostDetail) ''gameId'')
       (\<lambda>gameId. Inr (JDict [(''gameId'', gameId)]))"

definition share_post :: "'s server_fun \<Rightarrow> response \<Rightarrow> ('s, response) action" where
  "share_post serve rsp_PostDetail =
     py_bind (py_pure (share_post_data rsp_PostDetail)) (make_request serve SHARE_TASK_URL)"

text \<open>
  The form data of \<^verbatim>\<open>checkin\<close>, from the role list and the month in Beijing; the dict
  display reads \<^verbatim>\<open>user_game_list[0]\<close> once for each entry.
\<close>

definition checkin_data :: "json \<Rightarrow> nat \<Rightarrow> py_error + json" where
  "checkin_data user_game_list month =
     ebind (subscript_idx user_game_list 0) (\<lambda>role0.
     ebind (dict_get role0 ''gameId'' (JInt 2)) (\<lambda>gameId.
     ebind (subscript_idx user_game_list 0) (\<lambda>role1.
     ebind (dict_get role1 ''serverId'' JNull) (\<lambda>serverId.
     ebind (subscript_idx user_game_list 0) (\<lambda>role2.
     ebind (dict_get role2 ''roleId'' (JInt 0)) (\<lambda>roleId.
     ebind (subscript_idx user_game_list 0) (\<lambda>role3.
     ebind (dict_get role3 ''userId'' (JInt 0)) (\<lambda>userId.
     Inr (JDict [(''gameId'', gameId),
                 (''serverId'', serverId),
                 (''roleId'', roleId),
                 (''userId'', userId),
                 (''reqMonth'', JStr (fmt02d month))])))))))))"

definition checkin :: "'s server_fun \<Rightarrow> ('s, response) action" where
  "checkin serve =
     py_bind (get_user_game_list serve 3) (\<lambda>user_game_list.
     py_bind (\<lambda>w. (Inr (beijing_month w), w)) (\<lambda>month.
     py_bind (py_pure (checkin_data user_game_list month)) (make_request serve SIGN_URL)))"

definition sign_in :: "'s server_fun \<Rightarrow> ('s, response) action" where
  "sign_in serve = make_request serve USER_SIGN_URL (JDict [(''gameId'', JInt 2)])"

section \<open>The loops of the forum task\<close>

text \<open>\<^verbatim>\<open>time.sleep(random.uniform(lo, hi))\<close>: recorded with its bounds.\<close>

definition sleep_uniform :: "real \<Rightarrow> real \<Rightarrow> 's world \<Rightarrow> 's world" where
  "sleep_uniform lo hi w = w\<lparr>trace := trace w @ [Sleep lo hi]\<rparr>"

text \<open>
  How a \<^verbatim>\<open>for ... else\<close> loop ended: by \<^verbatim>\<open>break\<close>, or by running out of its range, which
  is when Python runs the \<^verbatim>\<open>else\<close> clause.
\<close>

datatype loop_exit = Break | Exhausted

text \<open>Reading a local variable that the loop may never have assigned.\<close>

definition bound :: "'a option \<Rightarrow> py_error + 'a" where
  "bound v = (case v of None \<Rightarrow> Inl UnboundLocalError | Some x \<Rightarrow> Inr x)"

text \<open>
  The post-detail loop (lines 148 to 155) and the share loop (lines 161 to 168) are the
  same loop over different constants:
  \<^verbatim>\<open>
  success = 0
  for i in range(0, N):
      rsp = action(i)
      if rsp.success:
          success += 1
      time.sleep(random.uniform(1.0, 2.0))
      if success >= K:
          break
  \<close>
  \<open>retry_loop K action\<close> runs it over the rest of the range, from the current values of
  \<^verbatim>\<open>success\<close>, \<^verbatim>\<open>rsp\<close> and the loop variable (unassigned before the first iteration),
  and returns how the loop ended and the three variables.
\<close>

type_synonym loop_vars = "loop_exit \<times> nat \<times> response option \<times> nat option"

fun retry_loop ::
  "nat \<Rightarrow> (nat \<Rightarrow> ('s, response) action) \<Rightarrow> nat list \<Rightarrow> nat \<Rightarrow> response option \<Rightarrow> nat option \<Rightarrow>
   ('s, loop_vars) action" where
  "retry_loop K action [] success_count rsp idx w = (Inr (Exhausted, success_count, rsp, idx), w)"
| "retry_loop K action (i # rest) success_count rsp idx w =
     (case action i w of
        (Inl e, w1) \<Rightarrow> (Inl e, w1)
      | (Inr r, w1) \<Rightarrow>
          (let success_count' = (if truthy (success r) then success_count + 1 else success_count);
               w2 = sleep_uniform 1 2 w1
           in if success_count' \<ge> K then (Inr (Break, success_count', Some r, Some i), w2)
              else retry_loop K action rest success_count' (Some r) (Some i) w2))"

text \<open>
  The like/unlike loop (lines 174 to 188). \<open>like_flag\<close> is the local variable
  \<^verbatim>\<open>like_post\<close>, \<open>rsp_like_post\<close> the response of the last like call, unassigned before the
  first one. One iteration is two steps. Lines 177 and 178: the like call, made only when the
  flag is set; the step returns the variable \<^verbatim>\<open>rsp_like_post\<close>.
\<close>

definition like_step ::
  "'s server_fun \<Rightarrow> response \<Rightarrow> bool \<Rightarrow> response option \<Rightarrow> ('s, response option) action" where
  "like_step serve rsp_getPostDetail like_flag rsp_like_post =
     (if like_flag
      then py_bind (like_post serve rsp_getPostDetail 1) (\<lambda>r. py_pure (Inr (Some r)))
      else py_pure (Inr rsp_like_post))"

text \<open>
  Lines 179 to 185: the test of \<^verbatim>\<open>rsp_like_post.success\<close> and, under it, the sleep, the
  unlike call and the update of the counter and the flag; the step returns both.
\<close>

definition unlike_step ::
  "'s server_fun \<Rightarrow> response \<Rightarrow> response option \<Rightarrow> bool \<Rightarrow> nat \<Rightarrow> ('s, nat \<times> bool) action" where
  "unlike_step serve rsp_getPostDetail rsp_like_post like_flag success_count =
     py_bind (py_pure (bound rsp_like_post)) (\<lambda>rsp_like.
       if truthy (success rsp_like)
       then (\<lambda>w. py_bind (like_post serve rsp_getPostDetail 2)
                   (\<lambda>rsp_dislike_post. py_pure
                      (Inr (if truthy (success rsp_dislike_post)
                            then (success_count + 1, True)
                            else (success_count, False))))
                   (sleep_uniform 1 2 w))
       else py_pure (Inr (success_count, like_flag)))"

fun like_loop ::
  "'s server_fun \<Rightarrow> response \<Rightarrow> nat list \<Rightarrow> bool \<Rightarrow> nat \<Rightarrow> response option \<Rightarrow> nat option \<Rightarrow>
   ('s, loop_vars) action" where
  "like_loop serve rsp_getPostDetail [] like_flag success_count rsp_like_post idx w =
     (Inr (Exhausted, success_count, rsp_like_post, idx), w)"
| "like_loop serve rsp_getPostDetail (i # rest) like_flag success_count rsp_like_post idx w =
     (case like_step serve rsp_getPostDetail like_flag rsp_like_post w of
        (Inl e, w1) \<Rightarrow> (Inl e, w1)
      | (Inr rsp_like_post', w1) \<Rightarrow>
          (case unlike_step serve rsp_getPostDetail rsp_like_post' like_flag success_count w1 of
             (Inl e, w2) \<Rightarrow> (Inl e, w2)
           | (Inr (success_count', like_flag'), w2) \<Rightarrow>
               (let w3 = sleep_uniform 1 2 w2
                in if success_count' \<ge> 5
                   then (Inr (Break, success_count', rsp_like_post', Some i), w3)
                   else like_loop serve rsp_getPostDetail rest like_flag' success_count'
                          rsp_like_post' (Some i) w3)))"

section \<open>The stages\<close>

type_synonym 's stage = "client \<Rightarrow> 's world \<Rightarrow> (py_error + unit) \<times> client \<times> 's world"

definition record_failure :: "string \<Rightarrow> response \<Rightarrow> client \<Rightarrow> client" where
  "record_failure failure_message resp c =
     c\<lparr>exceptions := exceptions c @ [failure_text failure_message resp]\<rparr>"

definition record_success :: "string \<Rightarrow> string \<Rightarrow> client \<Rightarrow> client" where
  "record_success action_name success_message c =
     c\<lparr>result := dict_set action_name success_message (result c)\<rparr>"

text \<open>
  The \<^verbatim>\<open>else\<close> clause of each loop of \<^verbatim>\<open>forum_task\<close>: it reads the loop's last response,
  appends the failure and returns from the method.
\<close>

definition else_clause :: "string \<Rightarrow> response option \<Rightarrow> 's stage" where
  "else_clause failure_message rsp c w =
     (case bound rsp of
        Inl e \<Rightarrow> (Inl e, c, w)
      | Inr r \<Rightarrow> (Inr (), record_failure failure_message r c, w))"

text \<open>\<^verbatim>\<open>forum_task\<close>, lines 174 to 193: the like/unlike loop and what follows it.\<close>

definition forum_task_like :: "'s server_fun \<Rightarrow> response \<Rightarrow> 's stage" where
  "forum_task_like serve rsp_getPostDetail c w =
     (case like_loop serve rsp_getPostDetail [0..<9] True 0 None None w of
        (Inl e, w1) \<Rightarrow> (Inl e, c, w1)
      | (Inr (Exhausted, n, rsp_like_post, idx), w1) \<Rightarrow>
          else_clause like_failure_message rsp_like_post c w1
      | (Inr (Break, n, rsp_like_post, idx), w1) \<Rightarrow>
          (Inr (), record_success ''rsp_like_post'' like_success_message c, w1))"

text \<open>Lines 161 to 173: the share loop, then the rest.\<close>

definition forum_task_share :: "'s server_fun \<Rightarrow> response \<Rightarrow> 's stage" where
  "forum_task_share serve rsp_getPostDetail c w =
     (case retry_loop 1 (\<lambda>_. share_post serve rsp_getPostDetail) [0..<1] 0 None None w of
        (Inl e, w1) \<Rightarrow> (Inl e, c, w1)
      | (Inr (Exhausted, n, rsp_share_post, idx), w1) \<Rightarrow>
          else_clause share_failure_message rsp_share_post c w1
      | (Inr (Break, n, rsp_share_post, idx), w1) \<Rightarrow>
          forum_task_like serve rsp_getPostDetail
            (record_success ''share_post'' share_success_message c) w1)"

text \<open>Lines 148 to 160: the post-detail loop, then the rest.\<close>

definition forum_task_detail :: "'s server_fun \<Rightarrow> response \<Rightarrow> 's stage" where
  "forum_task_detail serve rsp_forumList c w =
     (case retry_loop 3 (get_post_detail serve rsp_forumList) [0..<5] 0 None None w of
        (Inl e, w1) \<Rightarrow> (Inl e, c, w1)
      | (Inr (Exhausted, n, rsp_getPostDetail, idx), w1) \<Rightarrow>
          else_clause post_detail_failure_message rsp_getPostDetail c w1
      | (Inr (Break, n, rsp_getPostDetail, idx), w1) \<Rightarrow>
          (case bound rsp_getPostDetail of
             Inl e \<Rightarrow> (Inl e, c, w1)
           | Inr r \<Rightarrow>
               forum_task_share serve r
                 (record_success ''get_post_detail'' post_detail_success_message c) w1))"

text \<open>\<^verbatim>\<open>forum_task\<close>, from line 142.\<close>

definition forum_task :: "'s server_fun \<Rightarrow> 's stage" where
  "forum_task serve c w =
     (case get_forum_list serve w of
        (Inl e, w1) \<Rightarrow> (Inl e, c, w1)
      | (Inr rsp_forumList, w1) \<Rightarrow>
          if \<not> truthy (success rsp_forumList)
          then (Inr (), record_failure forum_list_failure_message rsp_forumList c, w1)
          else forum_task_detail serve rsp_forumList
                 (record_success ''get_forum_list'' forum_list_success_message c) w1)"

definition process_sign_action ::
  "string \<Rightarrow> ('s, response) action \<Rightarrow> string \<Rightarrow> string \<Rightarrow> 's stage" where
  "process_sign_action action_name action_method success_message failure_message c w =
     (case action_method w of
        (Inl e, w1) \<Rightarrow> (Inl e, c, w1)
      | (Inr resp, w1) \<Rightarrow>
          if truthy (success resp)
          then (Inr (), record_success action_name success_message c, w1)
          else (Inr (), record_failure failure_message resp c, w1))"

text \<open>The property \<^verbatim>\<open>KurobbsClient.msg\<close>.\<close>

definition client_msg :: "client \<Rightarrow> string" where
  "client_msg c = join '', '' (dict_values (result c)) @ ''!''"

text \<open>\<^verbatim>\<open>KurobbsClient._log\<close>.\<close>

definition log' :: "'s stage" where
  "log' c w =
     (let w1 = (if client_msg c \<noteq> [] then w\<lparr>trace := trace w @ [Log LogInfo (client_msg c)]\<rparr> else w)
      in if exceptions c \<noteq> []
         then (Inl (KurobbsClientException (join ''; '' (exceptions c))), c, w1)
         else (Inr (), c, w1))"

text \<open>Running a stage after another: an exception ends the sequence.\<close>

definition stage_then :: "'s stage \<Rightarrow> 's stage \<Rightarrow> 's stage" where
  "stage_then f g c w =
     (case f c w of (Inl e, c1, w1) \<Rightarrow> (Inl e, c1, w1) | (Inr u, c1, w1) \<Rightarrow> g c1 w1)"

definition checkin_stage :: "'s server_fun \<Rightarrow> 's stage" where
  "checkin_stage serve =
     process_sign_action ''checkin'' (checkin serve)
       checkin_success_message checkin_failure_message"

definition sign_in_stage :: "'s server_fun \<Rightarrow> 's stage" where
  "sign_in_stage serve =
     process_sign_action ''sign_in'' (sign_in serve)
       sign_in_success_message sign_in_failure_message"

text \<open>\<^verbatim>\<open>KurobbsClient.start\<close>.\<close>

definition start :: "'s server_fun \<Rightarrow> 's stage" where
  "start serve =
     stage_then (checkin_stage serve)
       (stage_then (sign_in_stage serve)
         (stage_then (forum_task serve) log'))"

section \<open>The entry point\<close>

text \<open>
  The warning of \<^verbatim>\<open>generate_fixed_string\<close>, line 46:
  \<^verbatim>\<open>U+751F U+6210 U+56FA U+5B9A U+5B57 U+7B26 U+4E32 U+8F93 U+5165 U+4E3A U+7A7A U+002C U+0020 U+4F7F U+7528 U+9ED8 U+8BA4 U+503C U+0020 U+0031\<close>.
\<close>

definition empty_input_warning :: string where
  "empty_input_warning =
    [CHR 0xE7, CHR 0x94, CHR 0x9F, CHR 0xE6, CHR 0x88, CHR 0x90, CHR 0xE5, CHR 0x9B, CHR 0xBA,
     CHR 0xE5, CHR 0xAE, CHR 0x9A, CHR 0xE5, CHR 0xAD, CHR 0x97, CHR 0xE7, CHR 0xAC, CHR 0xA6,
     CHR 0xE4, CHR 0xB8, CHR 0xB2, CHR 0xE8, CHR 0xBE, CHR 0x93, CHR 0xE5, CHR 0x85, CHR 0xA5,
     CHR 0xE4, CHR 0xB8, CHR 0xBA, CHR 0xE7, CHR 0xA9, CHR 0xBA, CHR 0x2C, CHR 0x20, CHR 0xE4,
     CHR 0xBD, CHR 0xBF, CHR 0xE7, CHR 0x94, CHR 0xA8, CHR 0xE9, CHR 0xBB, CHR 0x98, CHR 0xE8,
     CHR 0xAE, CHR 0xA4, CHR 0xE5, CHR 0x80, CHR 0xBC, CHR 0x20, CHR 0x31]"

text \<open>
  \<^verbatim>\<open>generate_fixed_string(uid)\<close>, called with the default \<^verbatim>\<open>length=40\<close>: what it leaves
  in the trace. An unset or empty \<^verbatim>\<open>uid\<close> is logged at level \<^verbatim>\<open>WARNING\<close>; the 40 is
  below 64, so the second warning never fires. The string it returns goes into the
  headers.
\<close>

definition generate_fixed_string :: "string option \<Rightarrow> 's world \<Rightarrow> 's world" where
  "generate_fixed_string input_string w =
     (if input_string = None \<or> input_string = Some []
      then w\<lparr>trace := trace w @ [Log LogWarning empty_input_warning]\<rparr>
      else w)"

text \<open>
  \<^verbatim>\<open>KurobbsClient.__init__(token, uid)\<close>. Both arguments come from \<^verbatim>\<open>os.getenv\<close>, which
  returns \<^verbatim>\<open>None\<close> for an unset variable. \<^verbatim>\<open>generate_fixed_string\<close> runs first; then
  \<^verbatim>\<open>uid[-2:]\<close>, the last two code points of \<^verbatim>\<open>uid\<close>, raises \<^verbatim>\<open>TypeError\<close> on \<^verbatim>\<open>None\<close>.
\<close>

definition init :: "string option \<Rightarrow> string option \<Rightarrow> ('s, client) action" where
  "init tok u w =
     (let w1 = generate_fixed_string u w
      in case u of
           None \<Rightarrow> (Inl TypeError, w1)
         | Some s \<Rightarrow>
             (Inr \<lparr>uid = s, token = tok,
                   ip = ''10.0.2.2'' @ concat (drop (length (code_points s) - 2) (code_points s)),
                   result = [], exceptions = []\<rparr>, w1))"

text \<open>
  Modelled from the spec: \<^verbatim>\<open>send_notification\<close> of the module \<^verbatim>\<open>ext_notification\<close>, which
  is not among the sources. The spec names it the outbound notification delivery, an
  external collaborator called with the text to deliver; the call is recorded as an
  effect and returns.
\<close>

definition send_notification :: "string \<Rightarrow> 's world \<Rightarrow> 's world" where
  "send_notification text w = w\<lparr>trace := trace w @ [Notify text]\<rparr>"

text \<open>
  Line 289 is \<^verbatim>\<open>logger.error(str(e), exc_info=False)\<close>. loguru does not know
  \<^verbatim>\<open>exc_info\<close>: a call with keyword arguments has its message formatted,
  \<^verbatim>\<open>message.format(*args, **kwargs)\<close>, before the record is made. So the text of the
  exception is read as a format string with the one keyword argument \<^verbatim>\<open>exc_info=False\<close>.

  \<^verbatim>\<open>str.format\<close> first cuts the string into literal text and replacement fields. Outside
  a field, \<^verbatim>\<open>{{\<close> and \<^verbatim>\<open>}}\<close> stand for one brace, a single \<^verbatim>\<open>}\<close> is an error, and a
  single \<^verbatim>\<open>{\<close> opens a field. The field name runs to \<^verbatim>\<open>}\<close>, \<^verbatim>\<open>!\<close> or \<^verbatim>\<open>:\<close>, with
  the text between \<^verbatim>\<open>[\<close> and \<^verbatim>\<open>]\<close> skipped and \<^verbatim>\<open>{\<close> an error; \<^verbatim>\<open>!\<close> takes one
  character, which \<^verbatim>\<open>}\<close> or \<^verbatim>\<open>:\<close> must follow; after \<^verbatim>\<open>:\<close> the format specification runs
  to the brace that closes the field, inner braces counted. The end of the string inside a
  field, or after a single brace, is an error.
\<close>

datatype markup = Text char | Field string

datatype scan = Literal | Closing | Opening | Name | Index | Bang | Conv | Spec nat

datatype step = Fail | Go scan string | Emit markup

definition name_step :: "string \<Rightarrow> char \<Rightarrow> step" where
  "name_step field c =
     (if c = CHR ''{'' then Fail
      else if c = CHR ''}'' then Emit (Field field)
      else if c = CHR ''['' then Go Index (field @ [c])
      else if c = CHR '':'' then Go (Spec 1) (field @ [c])
      else if c = CHR ''!'' then Go Bang (field @ [c])
      else Go Name (field @ [c]))"

text \<open>One character \<open>c\<close>, read in state \<open>st\<close> with \<open>field\<close> the text of the field so far.\<close>

fun scan_step :: "scan \<Rightarrow> string \<Rightarrow> char \<Rightarrow> step" where
  "scan_step Literal field c =
     (if c = CHR ''{'' then Go Opening []
      else if c = CHR ''}'' then Go Closing []
      else Emit (Text c))"
| "scan_step Closing field c = (if c = CHR ''}'' then Emit (Text c) else Fail)"
| "scan_step Opening field c = (if c = CHR ''{'' then Emit (Text c) else name_step [] c)"
| "scan_step Name field c = name_step field c"
| "scan_step Index field c = Go (if c = CHR '']'' then Name else Index) (field @ [c])"
| "scan_step Bang field c = Go Conv (field @ [c])"
| "scan_step Conv field c =
     (if c = CHR ''}'' then Emit (Field field)
      else if c = CHR '':'' then Go (Spec 1) (field @ [c])
      else Fail)"
| "scan_step (Spec n) field c =
     (if c = CHR ''{'' then Go (Spec (n + 1)) (field @ [c])
      else if c = CHR ''}'' then (if n = 1 then Emit (Field field) else Go (Spec (n - 1)) (field @ [c]))
      else Go (Spec n) (field @ [c]))"

text \<open>The pieces of a format string, or \<open>None\<close> when it is malformed.\<close>

fun scan_format :: "scan \<Rightarrow> string \<Rightarrow> string \<Rightarrow> markup list option" where
  "scan_format st field [] = (if st = Literal then Some [] else None)"
| "scan_format st field (c # cs) =
     (case scan_step st field c of
        Fail \<Rightarrow> None
      | Go st' field' \<Rightarrow> scan_format st' field' cs
      | Emit m \<Rightarrow> map_option (Cons m) (scan_format Literal [] cs))"

text \<open>
  The text of one replacement field. Its first name is what stands before the first
  \<^verbatim>\<open>.\<close>, \<^verbatim>\<open>[\<close>, \<^verbatim>\<open>!\<close> or \<^verbatim>\<open>:\<close>. An empty name or a number asks for a positional
  argument, and there is none (\<^verbatim>\<open>IndexError\<close>); any other name than \<^verbatim>\<open>exc_info\<close> is a
  missing keyword (\<^verbatim>\<open>KeyError\<close>). The bare field \<^verbatim>\<open>{exc_info}\<close> is \<^verbatim>\<open>str(False)\<close>; for
  anything more the text is the one the library gives, \<open>env\<close>.
\<close>

definition field_text :: "(string \<Rightarrow> string option) \<Rightarrow> string \<Rightarrow> string option" where
  "field_text env field =
     (if takeWhile (\<lambda>c. c \<notin> set ''.[!:'') field \<noteq> ''exc_info'' then None
      else if field = ''exc_info'' then Some ''False''
      else env field)"

fun render :: "(string \<Rightarrow> string option) \<Rightarrow> markup list \<Rightarrow> string option" where
  "render env [] = Some []"
| "render env (Text c # ms) = map_option (Cons c) (render env ms)"
| "render env (Field f # ms) =
     (case field_text env f of
        None \<Rightarrow> None
      | Some t \<Rightarrow> map_option (append t) (render env ms))"

text \<open>\<^verbatim>\<open>message.format(exc_info=False)\<close>: the formatted text, or \<open>None\<close> when it raises.\<close>

definition str_format :: "(string \<Rightarrow> string option) \<Rightarrow> string \<Rightarrow> string option" where
  "str_format env message =
     (case scan_format Literal [] message of
        None \<Rightarrow> None
      | Some ms \<Rightarrow> render env ms)"

text \<open>
  The two \<^verbatim>\<open>except\<close> clauses of \<^verbatim>\<open>main\<close>; both end in \<^verbatim>\<open>sys.exit(1)\<close>. In the first,
  when the formatting of the message raises, that exception leaves the handler before
  anything is logged or sent; no clause catches it, and the interpreter ends with status 1.
\<close>

fun main_except :: "py_error \<Rightarrow> 's world \<Rightarrow> nat \<times> 's world" where
  "main_except (KurobbsClientException m) w =
     (case str_format (format_field w) m of
        None \<Rightarrow> (1, w)
      | Some text \<Rightarrow> (1, send_notification m (w\<lparr>trace := trace w @ [Log LogError text]\<rparr>)))"
| "main_except e w =
     (1, w\<lparr>trace := trace w @ [Log LogException ''An unexpected error occurred:'']\<rparr>)"

text \<open>
  \<^verbatim>\<open>main\<close>, from the environment variables \<^verbatim>\<open>UID\<close> and \<^verbatim>\<open>TOKEN\<close>: the exit status of
  the process and the world it leaves.
\<close>

definition main :: "'s server_fun \<Rightarrow> string option \<Rightarrow> string option \<Rightarrow> 's world \<Rightarrow> nat \<times> 's world" where
  "main serve env_uid env_token w =
     (case init env_token env_uid w of
        (Inl e, w0) \<Rightarrow> main_except e w0
      | (Inr kurobbs, w0) \<Rightarrow>
          (case start serve kurobbs w0 of
             (Inl e, kurobbs', w1) \<Rightarrow> main_except e w1
           | (Inr u, kurobbs', w1) \<Rightarrow>
               (0, if client_msg kurobbs' \<noteq> []
                   then send_notification (client_msg kurobbs') w1
                   else w1)))"

section \<open>Simulated servers\<close>

text \<open>
  Concrete servers on which the operations can be evaluated. \<open>scripted\<close> answers from a
  list of replies, in order, and is unreachable once the list is used up.
\<close>

fun scripted :: "(reply list) server_fun" where
  "scripted [] ep d = (Unreachable, [])"
| "scripted (rp # rps) ep d = (rp, rps)"

definition ok_response :: "json \<Rightarrow> response" where
  "ok_response d = \<lparr>code = 200, msg = ''ok'', success = Some True, data = d\<rparr>"

definition refused_response :: "string \<Rightarrow> response" where
  "refused_response m = \<lparr>code = 500, msg = m, success = Some False, data = JNull\<rparr>"

definition role_list_data :: json where
  "role_list_data =
     JList [JDict [(''gameId'', JInt 3), (''serverId'', JStr ''s1''),
                   (''roleId'', JInt 7), (''userId'', JInt 42)]]"

definition forum_list_data :: json where
  "forum_list_data =
     JDict [(''postList'',
       JList [JDict [(''postId'', JInt 101)], JDict [(''postId'', JInt 102)],
              JDict [(''postId'', JInt 103)], JDict [(''postId'', JInt 104)],
              JDict [(''postId'', JInt 105)]])]"

definition post_detail_data :: json where
  "post_detail_data =
     JDict [(''postDetail'',
              JDict [(''gameForumId'', JInt 9), (''id'', JInt 101),
                     (''postType'', JInt 1), (''postUserId'', JInt 5)]),
            (''gameId'', JInt 3)]"

fun mock_data :: "endpoint \<Rightarrow> json" where
  "mock_data FIND_ROLE_LIST_API_URL = role_list_data"
| "mock_data FORUM_LIST_URL = forum_list_data"
| "mock_data GET_POST_DETAIL_URL = post_detail_data"
| "mock_data ep = JNull"

text \<open>A gateway that reports success on every call.\<close>

definition mock_ok :: "unit server_fun" where
  "mock_ok s ep d = (Reply (ok_response (mock_data ep)), s)"

text \<open>
  A gateway on which every call succeeds, except that an unlike call (\<^verbatim>\<open>operateType\<close> 2)
  succeeds only when the server's flag is set, and flips the flag.
\<close>

definition is_unlike :: "endpoint \<Rightarrow> json \<Rightarrow> bool" where
  "is_unlike ep d = (ep = LIKE_URL \<and> subscript_key d ''operateType'' = Inr (JInt 2))"

definition mock_alternating :: "bool server_fun" where
  "mock_alternating s ep d =
     (if is_unlike ep d
      then (Reply (if s then ok_response JNull else refused_response ''unlike refused''), \<not> s)
      else (Reply (ok_response (mock_data ep)), s))"

text \<open>A gateway on which every call succeeds, except that no unlike call ever does.\<close>

definition mock_no_unlike :: "unit server_fun" where
  "mock_no_unlike s ep d =
     (if is_unlike ep d
      then (Reply (refused_response ''unlike refused''), s)
      else (Reply (ok_response (mock_data ep)), s))"

text \<open>
  A world at the start of a run, in November, in which every replacement field beyond the
  bare \<^verbatim>\<open>{exc_info}\<close> raises.
\<close>

definition world0 :: "'s \<Rightarrow> 's world" where
  "world0 s = \<lparr>server = s, beijing_month = 11, format_field = (\<lambda>field. None), trace = []\<rparr>"

definition client0 :: client where
  "client0 = \<lparr>uid = ''10002345'', token = Some ''t'', ip = ''10.0.2.245'',
              result = [], exceptions = []\<rparr>"

text \<open>The replies of a run in which check-in, sign-in and forum listing are refused.\<close>

definition script_three_refusals :: "reply list" where
  "script_three_refusals =
     [Reply (ok_response role_list_data), Reply (refused_response ''signed already''),
      Reply (refused_response ''busy''), Reply (ok_response role_list_data),
      Reply (refused_response ''login expired'')]"

text \<open>The same, with a brace in the message of the refused check-in.\<close>

definition script_refusal_with_brace :: "reply list" where
  "script_refusal_with_brace =
     [Reply (ok_response role_list_data), Reply (refused_response ''limit {daily} reached''),
      Reply (refused_response ''busy''), Reply (ok_response role_list_data),
      Reply (refused_response ''login expired'')]"

definition script_unreachable_sign_in :: "reply list" where
  "script_unreachable_sign_in = [Reply (ok_response role_list_data), Reply (ok_response JNull)]"

definition script_empty_listing :: "reply list" where
  "script_empty_listing =
     [Reply (ok_response role_list_data), Reply (ok_response JNull), Reply (ok_response JNull),
      Reply (ok_response role_list_data),
      Reply (ok_response (JDict [(''postList'', JList [])]))]"

definition mock_checkin_refused :: "unit server_fun" where
  "mock_checkin_refused s ep d =
     (if ep = SIGN_URL then (Reply (refused_response ''signed already''), s)
      else (Reply (ok_response (mock_data ep)), s))"

section \<open>Observations on a run\<close>

text \<open>The endpoints called, in order, and the notifications delivered, in order.\<close>

fun requests :: "event list \<Rightarrow> endpoint list" where
  "requests [] = []"
| "requests (Call ep d rp # evs) = ep # requests evs"
| "requests (ev # evs) = requests evs"

fun notifications :: "event list \<Rightarrow> string list" where
  "notifications [] = []"
| "notifications (Notify t # evs) = t # notifications evs"
| "notifications (ev # evs) = notifications evs"

text \<open>The exception that a remote call raised in \<^verbatim>\<open>make_request\<close>, if it raised one.\<close>

fun raised_by :: "event \<Rightarrow> py_error option" where
  "raised_by (Call ep d Unreachable) = Some RequestException"
| "raised_by (Call ep d Unparseable) = Some ValidationError"
| "raised_by ev = None"

text \<open>No remote call among the events failed at the transport level.\<close>

definition clean :: "event list \<Rightarrow> bool" where
  "clean evs = list_all (\<lambda>ev. raised_by ev = None) evs"

fun transport_error :: "py_error \<Rightarrow> bool" where
  "transport_error RequestException = True"
| "transport_error ValidationError = True"
| "transport_error e = False"

fun is_workflow_failure :: "py_error \<Rightarrow> bool" where
  "is_workflow_failure (KurobbsClientException m) = True"
| "is_workflow_failure e = False"

text \<open>
  How the result of an operation sits with the events it left: a transport error is the
  exception of the last event, a call that failed, and no earlier call failed; with any
  other result no call failed.
\<close>

definition settled :: "py_error + 'a \<Rightarrow> event list \<Rightarrow> bool" where
  "settled r evs =
     (case r of
        Inr a \<Rightarrow> clean evs
      | Inl e \<Rightarrow>
          if transport_error e
          then evs \<noteq> [] \<and> raised_by (last evs) = Some e \<and> clean (butlast evs)
          else clean evs)"

fun remote_only :: "event \<Rightarrow> bool" where
  "remote_only (Call ep d rp) = True"
| "remote_only (Sleep lo hi) = True"
| "remote_only ev = False"

text \<open>
  What every operation below \<^verbatim>\<open>start\<close> keeps to: it leaves the clock and the library alone, adds only
  remote calls (to endpoints in \<open>S\<close>) and sleeps to the trace, its result is settled with
  these events, and it never raises the program's own exception.
\<close>

definition run_ok :: "endpoint set \<Rightarrow> 's world \<Rightarrow> (py_error + 'a) \<times> 's world \<Rightarrow> bool" where
  "run_ok S w rw =
     (case rw of (r, w') \<Rightarrow>
        beijing_month w' = beijing_month w \<and> format_field w' = format_field w \<and>
        (\<exists>evs. trace w' = trace w @ evs \<and> list_all remote_only evs \<and>
               set (requests evs) \<subseteq> S \<and> settled r evs) \<and>
        (case r of Inl e \<Rightarrow> \<not> is_workflow_failure e | Inr a \<Rightarrow> True))"

text \<open>An exception that is neither the program's own nor a transport error.\<close>

definition benign :: "py_error + 'a \<Rightarrow> bool" where
  "benign r = (case r of Inl e \<Rightarrow> \<not> is_workflow_failure e \<and> \<not> transport_error e | Inr a \<Rightarrow> True)"

text \<open>
  The same for a stage, which also works on the client: the list of failures only grows at
  its end.
\<close>

definition stage_ok :: "endpoint set \<Rightarrow> client \<Rightarrow> 's world \<Rightarrow> (py_error + unit) \<times> client \<times> 's world \<Rightarrow> bool" where
  "stage_ok S c w rcw =
     (case rcw of (r, c', w') \<Rightarrow>
        run_ok S w (r, w') \<and> (\<exists>new. exceptions c' = exceptions c @ new))"

text \<open>Lines 239 to 253 of \<^verbatim>\<open>start\<close>: the three stages, before \<^verbatim>\<open>_log\<close>.\<close>

definition stages :: "'s server_fun \<Rightarrow> 's stage" where
  "stages serve =
     stage_then (checkin_stage serve) (stage_then (sign_in_stage serve) (forum_task serve))"

text \<open>
  A simulated action for the retry loop: on the \<open>i\<close>-th index of the range it returns the
  envelope \<open>f i\<close>, in whatever state of the world, and leaves the one event \<open>ev i\<close>.
\<close>

definition simulates ::
  "nat \<Rightarrow> (nat \<Rightarrow> ('s, response) action) \<Rightarrow> (nat \<Rightarrow> response) \<Rightarrow> (nat \<Rightarrow> event) \<Rightarrow> bool" where
  "simulates N action f ev =
     (\<forall>i<N. \<forall>w. \<exists>w'. action i w = (Inr (f i), w') \<and> trace w' = trace w @ [ev i])"

text \<open>How many of the first \<open>n\<close> envelopes report success.\<close>

definition ok_count :: "(nat \<Rightarrow> response) \<Rightarrow> nat \<Rightarrow> nat" where
  "ok_count f n = length (filter (\<lambda>i. truthy (success (f i))) [0..<n])"

text \<open>The events of the first \<open>n\<close> attempts of a retry loop: each call, then a sleep.\<close>

definition attempts :: "(nat \<Rightarrow> event) \<Rightarrow> nat \<Rightarrow> nat \<Rightarrow> event list" where
  "attempts ev a n = concat (map (\<lambda>i. [ev i, Sleep 1 2]) [a..<n])"

text \<open>The loop variable and the last response after \<open>n\<close> iterations.\<close>

definition last_index :: "nat \<Rightarrow> nat option" where
  "last_index n = (if n = 0 then None else Some (n - 1))"

text \<open>A gateway on which the details of the first three posts of the listing are refused.\<close>

definition mock_posts_gone :: "unit server_fun" where
  "mock_posts_gone s ep d =
     (if ep = GET_POST_DETAIL_URL \<and>
         subscript_key d ''postId'' \<in> {Inr (JInt 101), Inr (JInt 102), Inr (JInt 103)}
      then (Reply (refused_response ''gone''), s)
      else (Reply (ok_response (mock_data ep)), s))"

text \<open>
  A simulated gateway for the like/unlike loop on the post \<open>rsp\<close>: the form data of both
  calls can be built, every like call succeeds and leaves the server's phase alone, and an
  unlike call succeeds exactly when the phase is set and moves the phase by \<open>flip\<close>.
\<close>

definition like_gateway :: "'s server_fun \<Rightarrow> response \<Rightarrow> ('s \<Rightarrow> bool) \<Rightarrow> (bool \<Rightarrow> bool) \<Rightarrow> bool" where
  "like_gateway serve rsp phase flip =
     (\<exists>d1 d2. like_post_data rsp 1 = Inr d1 \<and> like_post_data rsp 2 = Inr d2 \<and>
        (\<forall>s. \<exists>r s'. serve s LIKE_URL d1 = (Reply r, s') \<and> truthy (success r) \<and> phase s' = phase s) \<and>
        (\<forall>s. \<exists>r s'. serve s LIKE_URL d2 = (Reply r, s') \<and> truthy (success r) = phase s \<and>
                phase s' = flip (phase s)))"

text \<open>
  What the like/unlike loop does against such a gateway, from the flag, the counter, the
  phase and the loop variable: how it ends, the counter, the loop variable and the number of
  calls made.
\<close>

fun like_spec ::
  "(bool \<Rightarrow> bool) \<Rightarrow> nat list \<Rightarrow> bool \<Rightarrow> nat \<Rightarrow> bool \<Rightarrow> nat option \<Rightarrow> loop_exit \<times> nat \<times> nat option \<times> nat" where
  "like_spec flip [] like_flag success_count ph idx = (Exhausted, success_count, idx, 0)"
| "like_spec flip (i # rest) like_flag success_count ph idx =
     (let success_count' = (if ph then success_count + 1 else success_count);
          calls = (if like_flag then 2 else 1)
      in if success_count' \<ge> 5 then (Break, success_count', Some i, calls)
         else (case like_spec flip rest ph success_count' (flip ph) (Some i) of
                 (ex, n, idx', k) \<Rightarrow> (ex, n, idx', calls + k)))"

text \<open>
  A reply carries what the program goes on to read from it: the role list has a first
  entry that is a dict, the forum listing has the \<^verbatim>\<open>postId\<close> of its first three posts, and
  the post detail has the fields that the share and like calls send.
\<close>

fun reply_fits :: "endpoint \<Rightarrow> response \<Rightarrow> bool" where
  "reply_fits FIND_ROLE_LIST_API_URL r =
     (case subscript_idx (data r) 0 of Inr (JDict kvs) \<Rightarrow> True | _ \<Rightarrow> False)"
| "reply_fits FORUM_LIST_URL r =
     list_all (\<lambda>i. \<not> isl (get_post_detail_data r i)) [0, 1, 2]"
| "reply_fits GET_POST_DETAIL_URL r =
     (\<not> isl (like_post_data r 1) \<and> \<not> isl (like_post_data r 2))"
| "reply_fits ep r = True"

text \<open>A gateway that reports success on every call, with a reply that fits.\<close>

definition always_ok :: "'s server_fun \<Rightarrow> bool" where
  "always_ok serve =
     (\<forall>s ep d. \<exists>r s'. serve s ep d = (Reply r, s') \<and> truthy (success r) \<and> reply_fits ep r)"

text \<open>The result mapping after a run in which every stage succeeded.\<close>

definition all_recorded :: "(string \<times> string) list \<Rightarrow> (string \<times> string) list" where
  "all_recorded d =
     dict_set ''rsp_like_post'' like_success_message
       (dict_set ''share_post'' share_success_message
         (dict_set ''get_post_detail'' post_detail_success_message
           (dict_set ''get_forum_list'' forum_list_success_message
             (dict_set ''sign_in'' sign_in_success_message
               (dict_set ''checkin'' checkin_success_message d)))))"

text \<open>
  The summary of a new client after a run in which every stage succeeded: six messages,
  in the order in which the stages record them.
\<close>

definition full_summary :: string where
  "full_summary =
     join '', '' [checkin_success_message, sign_in_success_message, forum_list_success_message,
       post_detail_success_message, share_success_message, like_success_message] @ ''!''"

text \<open>\<^verbatim>\<open>start\<close> called again \<open>n\<close> more times on the same client object.\<close>

fun rerun :: "'s server_fun \<Rightarrow> nat \<Rightarrow> 's stage" where
  "rerun serve 0 = start serve"
| "rerun serve (Suc n) = stage_then (rerun serve n) (start serve)"

section \<open>Lemmas on the trace\<close>

lemma requests_append [simp]: "requests (xs @ ys) = requests xs @ requests ys"
  by (induction xs rule: requests.induct) simp_all

lemma notifications_append [simp]: "notifications (xs @ ys) = notifications xs @ notifications ys"
  by (induction xs rule: notifications.induct) simp_all

lemma clean_append [simp]: "clean (xs @ ys) = (clean xs \<and> clean ys)"
  by (simp add: clean_def)

lemma clean_Nil [simp]: "clean []"
  by (simp add: clean_def)

lemma settled_append: "clean xs \<Longrightarrow> settled r ys \<Longrightarrow> settled r (xs @ ys)"
  by (auto simp: settled_def butlast_append split: sum.splits)

lemma remote_only_quiet: "list_all remote_only evs \<Longrightarrow> notifications evs = []"
  by (induction evs rule: notifications.induct) simp_all

lemma benign_Inr [simp]: "benign (Inr a)"
  by (simp add: benign_def)

lemma benign_subscript_key [simp]: "benign (subscript_key j k)"
  by (cases j) (simp_all add: benign_def split: option.splits)

lemma benign_subscript_idx [simp]: "benign (subscript_idx j i)"
  by (cases j) (simp_all add: benign_def)

lemma benign_dict_get [simp]: "benign (dict_get j k d)"
  by (cases j) (simp_all add: benign_def split: option.splits)

lemma benign_bound [simp]: "benign (bound v)"
  by (simp add: benign_def bound_def split: option.splits)

lemma benign_ebind: "benign r \<Longrightarrow> (\<And>a. benign (f a)) \<Longrightarrow> benign (ebind r f)"
  by (cases r) (simp_all add: ebind_def benign_def)

subsection \<open>The invariant, rule by rule\<close>

lemma run_ok_mono: "run_ok S w rw \<Longrightarrow> S \<subseteq> T \<Longrightarrow> run_ok T w rw"
  by (auto simp: run_ok_def split: prod.splits)

lemma run_ok_make_request: "ep \<in> S \<Longrightarrow> run_ok S w (make_request serve ep d w)"
  by (auto simp: run_ok_def make_request_def settled_def clean_def split: prod.splits reply.splits)

lemma run_ok_py_pure: "benign r \<Longrightarrow> run_ok S w (py_pure r w)"
  by (auto simp: run_ok_def py_pure_def settled_def benign_def split: sum.splits)

lemma run_ok_bind:
  assumes "run_ok S w (m w)"
    and "\<And>a w1. m w = (Inr a, w1) \<Longrightarrow> run_ok S w1 (f a w1)"
  shows "run_ok S w (py_bind m f w)"
proof (cases "m w")
  case (Pair r w1)
  show ?thesis
  proof (cases r)
    case (Inl e)
    with Pair assms(1) show ?thesis
      by (auto simp: py_bind_def run_ok_def settled_def)
  next
    case (Inr a)
    from assms(2) [of a w1] Pair Inr have 2: "run_ok S w1 (f a w1)" by simp
    from assms(1) Pair Inr obtain e1 where e1: "trace w1 = trace w @ e1" "list_all remote_only e1"
      "set (requests e1) \<subseteq> S" "clean e1" "beijing_month w1 = beijing_month w"
      "format_field w1 = format_field w"
      by (auto simp: run_ok_def settled_def)
    obtain r2 w2 where f: "f a w1 = (r2, w2)" by (cases "f a w1")
    from 2 f obtain e2 where e2: "trace w2 = trace w1 @ e2" "list_all remote_only e2"
      "set (requests e2) \<subseteq> S" "settled r2 e2" "beijing_month w2 = beijing_month w1"
      "format_field w2 = format_field w1"
      "case r2 of Inl e \<Rightarrow> \<not> is_workflow_failure e | Inr a \<Rightarrow> True"
      by (auto simp: run_ok_def)
    have "trace w2 = trace w @ (e1 @ e2)" using e1 e2 by simp
    moreover have "list_all remote_only (e1 @ e2)" using e1 e2 by simp
    moreover have "set (requests (e1 @ e2)) \<subseteq> S" using e1 e2 by simp
    moreover have "settled r2 (e1 @ e2)" using e1 e2 by (simp add: settled_append)
    ultimately show ?thesis using Pair Inr f e1 e2
      unfolding run_ok_def py_bind_def by (simp only: prod.case sum.case) blast
  qed
qed

lemma run_ok_Inr: "run_ok S w (Inr a, w1) \<Longrightarrow> run_ok S w (Inr b, w1)"
  by (auto simp: run_ok_def settled_def)

lemma run_ok_Inl: "run_ok S w (Inl e, w1) \<Longrightarrow> run_ok S w (Inl e, w1)"
  by (auto simp: run_ok_def settled_def)

lemma run_ok_refl: "run_ok S w (Inr a, w)"
  by (simp add: run_ok_def settled_def)

lemma run_ok_trans:
  assumes "run_ok S w (Inr a, w1)" and "run_ok S w1 rw"
  shows "run_ok S w rw"
  using run_ok_bind [of S w "\<lambda>w. (Inr a, w1)" "\<lambda>_ _. rw"] assms
  by (simp add: py_bind_def)

lemma run_ok_sleep: "run_ok S w (Inr a, sleep_uniform lo hi w)"
  by (simp add: run_ok_def settled_def sleep_uniform_def clean_def)

subsection \<open>The invariant of each remote operation\<close>

lemma run_ok_get_user_game_list: "run_ok {FIND_ROLE_LIST_API_URL} w (get_user_game_list serve g w)"
  unfolding get_user_game_list_def
  by (intro run_ok_bind run_ok_make_request run_ok_py_pure) simp_all

lemma run_ok_get_forum_list:
  "run_ok {FIND_ROLE_LIST_API_URL, FORUM_LIST_URL} w (get_forum_list serve w)"
  unfolding get_forum_list_def get_forum_list_data_def
  by (intro run_ok_bind run_ok_make_request run_ok_py_pure benign_ebind
        run_ok_mono [OF run_ok_get_user_game_list]) simp_all

lemma run_ok_checkin:
  "run_ok {FIND_ROLE_LIST_API_URL, SIGN_URL} w (checkin serve w)"
  unfolding checkin_def checkin_data_def
  by (intro run_ok_bind run_ok_make_request run_ok_py_pure benign_ebind
        run_ok_mono [OF run_ok_get_user_game_list]) (simp_all add: run_ok_refl)

lemma run_ok_sign_in: "run_ok {USER_SIGN_URL} w (sign_in serve w)"
  unfolding sign_in_def by (intro run_ok_make_request) simp

lemma run_ok_get_post_detail:
  "run_ok {GET_POST_DETAIL_URL} w (get_post_detail serve rsp i w)"
  unfolding get_post_detail_def get_post_detail_data_def
  by (intro run_ok_bind run_ok_make_request run_ok_py_pure benign_ebind) simp_all

lemma run_ok_like_post: "run_ok {LIKE_URL} w (like_post serve rsp operateType w)"
  unfolding like_post_def like_post_data_def postDetail_field_def
  by (intro run_ok_bind run_ok_make_request run_ok_py_pure benign_ebind) simp_all

lemma run_ok_share_post: "run_ok {SHARE_TASK_URL} w (share_post serve rsp w)"
  unfolding share_post_def share_post_data_def
  by (intro run_ok_bind run_ok_make_request run_ok_py_pure benign_ebind) simp_all

lemma run_ok_retry_loop:
  assumes "\<And>i w. run_ok S w (action i w)"
  shows "run_ok S w (retry_loop K action xs sc rsp idx w)"
proof (induction xs arbitrary: sc rsp idx w)
  case Nil
  show ?case by (simp add: run_ok_refl)
next
  case (Cons i rest)
  obtain r w1 where a: "action i w = (r, w1)" by (cases "action i w")
  have ok: "run_ok S w (r, w1)" using assms [of w i] a by simp
  show ?case
  proof (cases r)
    case (Inl e)
    with a ok show ?thesis by (auto simp: run_ok_def settled_def)
  next
    case (Inr x)
    have s: "run_ok S w (Inr x, sleep_uniform 1 2 w1)"
    proof (rule run_ok_trans)
      show "run_ok S w (Inr x, w1)" using ok Inr by simp
      show "run_ok S w1 (Inr x, sleep_uniform 1 2 w1)" by (rule run_ok_sleep)
    qed
    have b: "run_ok S w (Inr (Break, n, Some x, Some i), sleep_uniform 1 2 w1)" for n
      by (rule run_ok_Inr [OF s])
    have c: "run_ok S w (retry_loop K action rest n (Some x) (Some i) (sleep_uniform 1 2 w1))" for n
      by (rule run_ok_trans [OF s Cons.IH])
    show ?thesis
      using a Inr by (simp add: Let_def b c)
  qed
qed

lemma run_ok_like_step: "run_ok {LIKE_URL} w (like_step serve rsp flag rl w)"
proof (cases flag)
  case True
  then show ?thesis
    unfolding like_step_def
    by (simp only: if_True) (intro run_ok_bind run_ok_like_post run_ok_py_pure benign_Inr)
next
  case False
  then show ?thesis
    unfolding like_step_def by (simp add: run_ok_py_pure)
qed

lemma run_ok_unlike_call:
  "run_ok {LIKE_URL} w
     (py_bind (like_post serve rsp 2) (\<lambda>d. py_pure (Inr (g d))) (sleep_uniform 1 2 w))"
proof (rule run_ok_trans)
  show "run_ok {LIKE_URL} w (Inr (), sleep_uniform 1 2 w)" by (rule run_ok_sleep)
  show "run_ok {LIKE_URL} (sleep_uniform 1 2 w)
     (py_bind (like_post serve rsp 2) (\<lambda>d. py_pure (Inr (g d))) (sleep_uniform 1 2 w))"
    by (intro run_ok_bind run_ok_like_post run_ok_py_pure benign_Inr)
qed

lemma run_ok_unlike_step: "run_ok {LIKE_URL} w (unlike_step serve rsp rl flag sc w)"
  unfolding unlike_step_def
proof (rule run_ok_bind)
  show "run_ok {LIKE_URL} w (py_pure (bound rl) w)"
    by (rule run_ok_py_pure) simp
next
  fix a w1
  show "run_ok {LIKE_URL} w1
          ((if truthy (success a)
            then \<lambda>w. py_bind (like_post serve rsp 2)
                   (\<lambda>rsp_dislike_post. py_pure
                      (Inr (if truthy (success rsp_dislike_post) then (sc + 1, True) else (sc, False))))
                   (sleep_uniform 1 2 w)
            else py_pure (Inr (sc, flag))) w1)"
    by (cases "truthy (success a)") (simp_all add: run_ok_unlike_call run_ok_py_pure)
qed

lemma run_ok_like_loop: "run_ok {LIKE_URL} w (like_loop serve rsp xs flag sc rl idx w)"
proof (induction xs arbitrary: flag sc rl idx w)
  case Nil
  show ?case by (simp add: run_ok_refl)
next
  case (Cons i rest)
  obtain r1 w1 where a: "like_step serve rsp flag rl w = (r1, w1)"
    by (cases "like_step serve rsp flag rl w")
  have ok1: "run_ok {LIKE_URL} w (r1, w1)" using run_ok_like_step [of w serve rsp flag rl] a by simp
  show ?case
  proof (cases r1)
    case (Inl e)
    with a ok1 show ?thesis by (auto simp: run_ok_def settled_def)
  next
    case (Inr rl')
    obtain r2 w2 where b: "unlike_step serve rsp rl' flag sc w1 = (r2, w2)"
      by (cases "unlike_step serve rsp rl' flag sc w1")
    have ok2: "run_ok {LIKE_URL} w (r2, w2)"
      using run_ok_trans [of "{LIKE_URL}" w rl' w1 "(r2, w2)"] ok1 Inr
        run_ok_unlike_step [of w1 serve rsp rl' flag sc] b by simp
    show ?thesis
    proof (cases r2)
      case (Inl e)
      with a b Inr ok2 show ?thesis by (auto simp: run_ok_def settled_def)
    next
      case (Inr p)
      obtain sc' flag' where p: "p = (sc', flag')" by (cases p)
      have s: "run_ok {LIKE_URL} w (Inr p, sleep_uniform 1 2 w2)"
      proof (rule run_ok_trans)
        show "run_ok {LIKE_URL} w (Inr p, w2)" using ok2 Inr by simp
        show "run_ok {LIKE_URL} w2 (Inr p, sleep_uniform 1 2 w2)" by (rule run_ok_sleep)
      qed
      have c: "run_ok {LIKE_URL} w (Inr (Break, sc', rl', Some i), sleep_uniform 1 2 w2)"
        by (rule run_ok_Inr [OF s])
      have d: "run_ok {LIKE_URL} w
                 (like_loop serve rsp rest flag' sc' rl' (Some i) (sleep_uniform 1 2 w2))"
        by (rule run_ok_trans [OF s Cons.IH])
      show ?thesis
        using a b \<open>r1 = Inr rl'\<close> Inr p by (simp add: Let_def c d)
    qed
  qed
qed


lemma stage_ok_mono: "stage_ok S c w rcw \<Longrightarrow> S \<subseteq> T \<Longrightarrow> stage_ok T c w rcw"
  by (auto simp: stage_ok_def intro: run_ok_mono split: prod.splits)

lemma stage_ok_forum_task_like: "stage_ok {LIKE_URL} c w (forum_task_like serve rsp c w)"
  using run_ok_like_loop [of w serve rsp "[0..<9]" True 0 None None]
  by (auto simp: stage_ok_def forum_task_like_def else_clause_def run_ok_def settled_def bound_def
        record_failure_def record_success_def
      split: prod.splits sum.splits loop_exit.splits option.splits)

lemma stage_ok_trans:
  assumes "run_ok S w (Inr a, w1)" and "stage_ok S c1 w1 rcw" and "\<exists>new. exceptions c1 = exceptions c @ new"
  shows "stage_ok S c w rcw"
proof -
  obtain r c' w' where rcw: "rcw = (r, c', w')" by (cases rcw)
  have "run_ok S w (r, w')"
    using run_ok_trans [OF assms(1), of "(r, w')"] assms(2) rcw by (simp add: stage_ok_def)
  moreover have "\<exists>new. exceptions c' = exceptions c @ new"
    using assms(2,3) rcw by (auto simp: stage_ok_def)
  ultimately show ?thesis using rcw by (simp add: stage_ok_def)
qed

lemma stage_ok_forum_task_share:
  "stage_ok {SHARE_TASK_URL, LIKE_URL} c w (forum_task_share serve rsp c w)"
proof -
  let ?loop = "retry_loop 1 (\<lambda>_. share_post serve rsp) [0..<1] 0 None None w"
  obtain r w1 where l: "?loop = (r, w1)" by (cases ?loop)
  have "run_ok {SHARE_TASK_URL} w ?loop"
    by (rule run_ok_retry_loop) (rule run_ok_share_post)
  then have ok: "run_ok {SHARE_TASK_URL, LIKE_URL} w (r, w1)"
    using l by (auto intro: run_ok_mono)
  show ?thesis
  proof (cases r)
    case (Inl e)
    with l ok show ?thesis
      by (auto simp: forum_task_share_def stage_ok_def run_ok_def settled_def)
  next
    case (Inr v)
    obtain ex n rs idx where v: "v = (ex, n, rs, idx)" by (cases v)
    show ?thesis
    proof (cases ex)
      case Break
      have "stage_ok {SHARE_TASK_URL, LIKE_URL} c w
              (forum_task_like serve rsp (record_success ''share_post'' share_success_message c) w1)"
        by (rule stage_ok_trans [where a = v and ?w1.0 = w1
              and ?c1.0 = "record_success ''share_post'' share_success_message c"])
           (use ok Inr in \<open>simp_all add: stage_ok_mono [OF stage_ok_forum_task_like] record_success_def\<close>)
      with l Inr v Break show ?thesis by (simp add: forum_task_share_def)
    next
      case Exhausted
      with l Inr v ok show ?thesis
        by (auto simp: forum_task_share_def stage_ok_def else_clause_def run_ok_def settled_def
              bound_def record_failure_def split: option.splits)
    qed
  qed
qed


lemma stage_ok_forum_task_detail:
  "stage_ok {GET_POST_DETAIL_URL, SHARE_TASK_URL, LIKE_URL} c w (forum_task_detail serve rsp c w)"
proof -
  let ?S = "{GET_POST_DETAIL_URL, SHARE_TASK_URL, LIKE_URL}"
  let ?loop = "retry_loop 3 (get_post_detail serve rsp) [0..<5] 0 None None w"
  obtain r w1 where l: "?loop = (r, w1)" by (cases ?loop)
  have "run_ok {GET_POST_DETAIL_URL} w ?loop"
    by (rule run_ok_retry_loop) (rule run_ok_get_post_detail)
  then have ok: "run_ok ?S w (r, w1)"
    using l by (auto intro: run_ok_mono)
  show ?thesis
  proof (cases r)
    case (Inl e)
    with l ok show ?thesis
      by (auto simp: forum_task_detail_def stage_ok_def run_ok_def settled_def)
  next
    case (Inr v)
    obtain ex n rs idx where v: "v = (ex, n, rs, idx)" by (cases v)
    show ?thesis
    proof (cases ex)
      case Break
      show ?thesis
      proof (cases rs)
        case None
        with l Inr v Break ok show ?thesis
          by (auto simp: forum_task_detail_def stage_ok_def run_ok_def settled_def bound_def)
      next
        case (Some x)
        have "stage_ok ?S c w
                (forum_task_share serve x
                   (record_success ''get_post_detail'' post_detail_success_message c) w1)"
          by (rule stage_ok_trans [where a = v and ?w1.0 = w1
                and ?c1.0 = "record_success ''get_post_detail'' post_detail_success_message c"])
             (use ok Inr in \<open>auto simp: record_success_def intro: stage_ok_mono [OF stage_ok_forum_task_share]\<close>)
        with l Inr v Break Some show ?thesis by (simp add: forum_task_detail_def bound_def)
      qed
    next
      case Exhausted
      with l Inr v ok show ?thesis
        by (auto simp: forum_task_detail_def stage_ok_def else_clause_def run_ok_def settled_def
              bound_def record_failure_def split: option.splits)
    qed
  qed
qed

lemma stage_ok_forum_task:
  "stage_ok {FIND_ROLE_LIST_API_URL, FORUM_LIST_URL, GET_POST_DETAIL_URL, SHARE_TASK_URL, LIKE_URL}
     c w (forum_task serve c w)"
proof -
  let ?S = "{FIND_ROLE_LIST_API_URL, FORUM_LIST_URL, GET_POST_DETAIL_URL, SHARE_TASK_URL, LIKE_URL}"
  obtain r w1 where l: "get_forum_list serve w = (r, w1)" by (cases "get_forum_list serve w")
  have ok: "run_ok ?S w (r, w1)"
    using run_ok_get_forum_list [of w serve] l by (auto intro: run_ok_mono)
  show ?thesis
  proof (cases r)
    case (Inl e)
    with l ok show ?thesis
      by (auto simp: forum_task_def stage_ok_def run_ok_def settled_def)
  next
    case (Inr x)
    show ?thesis
    proof (cases "truthy (success x)")
      case False
      with l Inr ok show ?thesis
        by (auto simp: forum_task_def stage_ok_def run_ok_def settled_def record_failure_def)
    next
      case True
      have "stage_ok ?S c w
              (forum_task_detail serve x
                 (record_success ''get_forum_list'' forum_list_success_message c) w1)"
        by (rule stage_ok_trans [where a = x and ?w1.0 = w1
              and ?c1.0 = "record_success ''get_forum_list'' forum_list_success_message c"])
           (use ok Inr in \<open>auto simp: record_success_def intro: stage_ok_mono [OF stage_ok_forum_task_detail]\<close>)
      with l Inr True show ?thesis by (simp add: forum_task_def)
    qed
  qed
qed

lemma stage_ok_process_sign_action:
  assumes "run_ok S w (action_method w)"
  shows "stage_ok S c w (process_sign_action name action_method ok_msg fail_msg c w)"
  using assms
  by (auto simp: stage_ok_def process_sign_action_def run_ok_def settled_def
        record_failure_def record_success_def split: prod.splits sum.splits)

lemma stage_ok_checkin_stage:
  "stage_ok {FIND_ROLE_LIST_API_URL, SIGN_URL} c w (checkin_stage serve c w)"
  unfolding checkin_stage_def by (rule stage_ok_process_sign_action) (rule run_ok_checkin)

lemma stage_ok_sign_in_stage: "stage_ok {USER_SIGN_URL} c w (sign_in_stage serve c w)"
  unfolding sign_in_stage_def by (rule stage_ok_process_sign_action) (rule run_ok_sign_in)

lemma stage_ok_then:
  assumes "stage_ok S c w (f c w)"
    and "\<And>u c1 w1. f c w = (Inr u, c1, w1) \<Longrightarrow> stage_ok S c1 w1 (g c1 w1)"
  shows "stage_ok S c w (stage_then f g c w)"
proof -
  obtain r c1 w1 where f: "f c w = (r, c1, w1)" by (cases "f c w")
  show ?thesis
  proof (cases r)
    case (Inl e)
    with f assms(1) show ?thesis by (simp add: stage_then_def)
  next
    case (Inr u)
    have "stage_ok S c w (g c1 w1)"
      by (rule stage_ok_trans [where a = u and ?w1.0 = w1 and ?c1.0 = c1])
         (use assms f Inr in \<open>auto simp: stage_ok_def\<close>)
    with f Inr show ?thesis by (simp add: stage_then_def)
  qed
qed

section \<open>The run as a whole\<close>

lemma start_stages: "start serve c w = stage_then (stages serve) log' c w"
  by (simp add: start_def stages_def stage_then_def split: prod.splits sum.splits)

lemma stage_ok_stages: "stage_ok UNIV c w (stages serve c w)"
  unfolding stages_def
  by (intro stage_ok_then stage_ok_mono [OF stage_ok_checkin_stage]
        stage_ok_mono [OF stage_ok_sign_in_stage] stage_ok_mono [OF stage_ok_forum_task]) simp_all

lemma join_snoc_nonempty: "join sep xs @ ''!'' \<noteq> []"
  by simp

lemma log'_eq:
  "log' c w =
     (if exceptions c = [] then Inr ()
      else Inl (KurobbsClientException (join ''; '' (exceptions c))),
      c, w\<lparr>trace := trace w @ [Log LogInfo (client_msg c)]\<rparr>)"
  by (simp add: log'_def client_msg_def Let_def)

text \<open>What \<^verbatim>\<open>start\<close> returns, by the result of the three stages.\<close>

lemma start_cases:
  assumes "start serve c w = (r, c', w')"
  shows "(\<exists>e. stages serve c w = (Inl e, c', w') \<and> r = Inl e \<and> \<not> is_workflow_failure e) \<or>
         (\<exists>w1. stages serve c w = (Inr (), c', w1) \<and> log' c' w1 = (r, c', w'))"
proof -
  obtain r1 c1 w1 where s: "stages serve c w = (r1, c1, w1)" by (cases "stages serve c w")
  have ok: "stage_ok UNIV c w (r1, c1, w1)" using stage_ok_stages [of c w serve] s by simp
  show ?thesis
  proof (cases r1)
    case (Inl e)
    then have "\<not> is_workflow_failure e" using ok by (simp add: stage_ok_def run_ok_def)
    with assms s Inl show ?thesis by (auto simp: start_stages stage_then_def)
  next
    case (Inr u)
    with assms s have l: "log' c1 w1 = (r, c', w')" by (simp add: start_stages stage_then_def)
    then have "c' = c1" by (simp add: log'_eq)
    with l s Inr show ?thesis by auto
  qed
qed

lemmas run_defs =
  start_def stage_then_def checkin_stage_def sign_in_stage_def process_sign_action_def
  checkin_def checkin_data_def sign_in_def get_user_game_list_def get_forum_list_def
  get_forum_list_data_def get_post_detail_def get_post_detail_data_def share_post_data_def
  like_post_def like_post_data_def postDetail_field_def share_post_def make_request_def py_bind_def py_pure_def
  ebind_def bound_def truthy_def record_success_def record_failure_def failure_text_def
  forum_task_def forum_task_detail_def forum_task_share_def forum_task_like_def else_clause_def
  like_step_def unlike_step_def sleep_uniform_def log'_def client_msg_def dict_values_def
  main_def init_def generate_fixed_string_def continuation_byte_def send_notification_def
  Let_def upt_rec

lemmas mock_defs =
  mock_ok_def mock_alternating_def mock_no_unlike_def is_unlike_def ok_response_def
  refused_response_def role_list_data_def forum_list_data_def post_detail_data_def
  world0_def client0_def

lemma stages_effects:
  assumes "stages serve c w = (r, c', w')"
  shows "\<exists>evs. trace w' = trace w @ evs \<and> list_all remote_only evs \<and> settled r evs \<and>
           (\<exists>new. exceptions c' = exceptions c @ new) \<and>
           (case r of Inl e \<Rightarrow> \<not> is_workflow_failure e | Inr a \<Rightarrow> True)"
  using stage_ok_stages [of c w serve] assms
  by (auto simp: stage_ok_def run_ok_def)

lemma start_effects:
  assumes "start serve c w = (r, c', w')"
  shows "(\<exists>evs. trace w' = trace w @ evs \<and> notifications evs = []) \<and>
           (\<exists>new. exceptions c' = exceptions c @ new) \<and>
           (case r of
              Inr u \<Rightarrow> exceptions c' = [] \<and> last (trace w') = Log LogInfo (client_msg c')
            | Inl e \<Rightarrow>
                if is_workflow_failure e
                then exceptions c' \<noteq> [] \<and>
                     e = KurobbsClientException (join ''; '' (exceptions c')) \<and>
                     last (trace w') = Log LogInfo (client_msg c')
                else stages serve c w = (Inl e, c', w'))"
  using start_cases [OF assms]
proof (elim disjE exE conjE)
  fix e
  assume s: "stages serve c w = (Inl e, c', w')" and r: "r = Inl e" and e: "\<not> is_workflow_failure e"
  from stages_effects [OF s] obtain evs where
    "trace w' = trace w @ evs" "list_all remote_only evs" "\<exists>new. exceptions c' = exceptions c @ new"
    by auto
  with s r e show ?thesis by (auto simp: remote_only_quiet)
next
  fix w1
  assume s: "stages serve c w = (Inr (), c', w1)" and l: "log' c' w1 = (r, c', w')"
  from stages_effects [OF s] obtain evs where
    evs: "trace w1 = trace w @ evs" "list_all remote_only evs" "\<exists>new. exceptions c' = exceptions c @ new"
    by auto
  have t: "trace w' = trace w @ (evs @ [Log LogInfo (client_msg c')])"
    using l evs by (auto simp: log'_eq)
  moreover have "notifications (evs @ [Log LogInfo (client_msg c')]) = []"
    using evs by (simp add: remote_only_quiet)
  ultimately have 1: "\<exists>evs. trace w' = trace w @ evs \<and> notifications evs = []" by blast
  have 3: "case r of
              Inr u \<Rightarrow> exceptions c' = [] \<and> last (trace w') = Log LogInfo (client_msg c')
            | Inl e \<Rightarrow>
                if is_workflow_failure e
                then exceptions c' \<noteq> [] \<and>
                     e = KurobbsClientException (join ''; '' (exceptions c')) \<and>
                     last (trace w') = Log LogInfo (client_msg c')
                else stages serve c w = (Inl e, c', w')"
    using l t by (auto simp: log'_eq split: if_splits)
  show ?thesis using 1 evs(3) 3 by blast
qed

lemma main_except_other:
  "\<not> is_workflow_failure e \<Longrightarrow>
   main_except e w = (1, w\<lparr>trace := trace w @ [Log LogException ''An unexpected error occurred:'']\<rparr>)"
  by (cases e) simp_all

lemma start_settled:
  assumes "clean (trace w)" and "start serve c w = (r, c', w')"
  shows "settled r (trace w')"
  using start_cases [OF assms(2)]
proof (elim disjE exE conjE)
  fix e
  assume s: "stages serve c w = (Inl e, c', w')" and r: "r = Inl e"
  from stages_effects [OF s] obtain evs where "trace w' = trace w @ evs" "settled (Inl e :: py_error + unit) evs"
    by auto
  with assms(1) r show ?thesis by (simp add: settled_append)
next
  fix w1
  assume s: "stages serve c w = (Inr (), c', w1)" and l: "log' c' w1 = (r, c', w')"
  from stages_effects [OF s] obtain evs where "trace w1 = trace w @ evs" "clean evs"
    by (auto simp: settled_def)
  with assms(1) l show ?thesis
    by (auto simp: log'_eq settled_def clean_def split: if_splits)
qed

lemma not_clean_last: "evs \<noteq> [] \<Longrightarrow> raised_by (last evs) = Some e \<Longrightarrow> \<not> clean evs"
  by (induction evs) (auto simp: clean_def split: if_splits)

subsection \<open>The endpoints each operation calls\<close>

lemma requests_sleep [simp]: "requests (trace (sleep_uniform lo hi w)) = requests (trace w)"
  by (simp add: sleep_uniform_def)

lemma requests_make_request:
  "make_request serve ep d w = (r, w1) \<Longrightarrow> requests (trace w1) = requests (trace w) @ [ep]"
  by (auto simp: make_request_def split: prod.splits)

lemma requests_get_user_game_list:
  "get_user_game_list serve g w = (r, w1) \<Longrightarrow>
   requests (trace w1) = requests (trace w) @ [FIND_ROLE_LIST_API_URL]"
  by (auto simp: get_user_game_list_def py_bind_def py_pure_def dest: requests_make_request
      split: prod.splits sum.splits)

lemma requests_checkin:
  "checkin serve w = (Inr r, w1) \<Longrightarrow>
   requests (trace w1) = requests (trace w) @ [FIND_ROLE_LIST_API_URL, SIGN_URL]"
  by (auto simp: checkin_def py_bind_def py_pure_def
      dest!: requests_make_request requests_get_user_game_list
      split: prod.splits sum.splits)

lemma requests_sign_in:
  "sign_in serve w = (r, w1) \<Longrightarrow> requests (trace w1) = requests (trace w) @ [USER_SIGN_URL]"
  by (auto simp: sign_in_def dest: requests_make_request)

lemma requests_get_forum_list:
  "get_forum_list serve w = (Inr r, w1) \<Longrightarrow>
   requests (trace w1) = requests (trace w) @ [FIND_ROLE_LIST_API_URL, FORUM_LIST_URL]"
  by (auto simp: get_forum_list_def py_bind_def py_pure_def
      dest!: requests_make_request requests_get_user_game_list
      split: prod.splits sum.splits)

lemma requests_get_post_detail:
  "get_post_detail serve rsp i w = (Inr r, w1) \<Longrightarrow>
   requests (trace w1) = requests (trace w) @ [GET_POST_DETAIL_URL]"
  by (auto simp: get_post_detail_def py_bind_def py_pure_def dest!: requests_make_request
      split: prod.splits sum.splits)

lemma requests_share_post:
  "share_post serve rsp w = (Inr r, w1) \<Longrightarrow>
   requests (trace w1) = requests (trace w) @ [SHARE_TASK_URL]"
  by (auto simp: share_post_def py_bind_def py_pure_def dest!: requests_make_request
      split: prod.splits sum.splits)

lemma requests_retry_loop:
  assumes "\<And>i w r w1. action i w = (Inr r, w1) \<Longrightarrow> requests (trace w1) = requests (trace w) @ [ep]"
    and "retry_loop K action xs sc rsp idx w = (Inr (ex, n, rs, idx'), w')"
  shows "\<exists>k \<le> length xs. requests (trace w') = requests (trace w) @ replicate k ep \<and>
           (ex = Exhausted \<longrightarrow> k = length xs) \<and> (ex = Break \<longrightarrow> 0 < k)"
  using assms(2)
proof (induction xs arbitrary: sc rsp idx w)
  case Nil
  then show ?case by simp
next
  case (Cons i rest)
  obtain r w1 where a: "action i w = (r, w1)" by (cases "action i w")
  show ?case
  proof (cases r)
    case (Inl e)
    with a Cons.prems show ?thesis by simp
  next
    case (Inr x)
    with a have q: "requests (trace w1) = requests (trace w) @ [ep]" using assms(1) by blast
    let ?sc = "if truthy (success x) then sc + 1 else sc"
    show ?thesis
    proof (cases "K \<le> ?sc")
      case True
      with a Inr Cons.prems have "ex = Break" "w' = sleep_uniform 1 2 w1"
        by (auto simp: Let_def split: if_splits)
      with q show ?thesis by (intro exI [of _ 1]) simp
    next
      case False
      with a Inr Cons.prems have
        "retry_loop K action rest ?sc (Some x) (Some i) (sleep_uniform 1 2 w1) = (Inr (ex, n, rs, idx'), w')"
        by (auto simp: Let_def split: if_splits)
      from Cons.IH [OF this] obtain k where k: "k \<le> length rest"
        "requests (trace w') = requests (trace (sleep_uniform 1 2 w1)) @ replicate k ep"
        "ex = Exhausted \<longrightarrow> k = length rest"
        by blast
      with q show ?thesis
        by (intro exI [of _ "Suc k"]) (simp add: replicate_append_same)
    qed
  qed
qed

lemma subset_singleton_replicate: "set xs \<subseteq> {a} \<Longrightarrow> xs = replicate (length xs) a"
  by (induction xs) auto

lemma requests_like_loop:
  assumes "like_loop serve rsp xs flag sc rl idx w = (r, w')"
  shows "\<exists>n. requests (trace w') = requests (trace w) @ replicate n LIKE_URL"
proof -
  from run_ok_like_loop [of w serve rsp xs flag sc rl idx] assms
  obtain evs where "trace w' = trace w @ evs" "set (requests evs) \<subseteq> {LIKE_URL}"
    by (auto simp: run_ok_def)
  then show ?thesis using subset_singleton_replicate [of "requests evs" LIKE_URL]
    by (intro exI [of _ "length (requests evs)"]) simp
qed

subsection \<open>What the forum task records\<close>

lemma forum_task_like_outcome:
  assumes "forum_task_like serve rsp c w = (Inr u, c', w')"
  shows "\<exists>n. requests (trace w') = requests (trace w) @ replicate n LIKE_URL \<and>
           ((\<exists>r. c' = record_failure like_failure_message r c) \<or>
            c' = record_success ''rsp_like_post'' like_success_message c)"
proof -
  obtain r w1 where l: "like_loop serve rsp [0..<9] True 0 None None w = (r, w1)"
    by (cases "like_loop serve rsp [0..<9] True 0 None None w")
  from requests_like_loop [OF l] obtain n where
    n: "requests (trace w1) = requests (trace w) @ replicate n LIKE_URL" by blast
  from assms l have "w' = w1 \<and>
           ((\<exists>r. c' = record_failure like_failure_message r c) \<or>
            c' = record_success ''rsp_like_post'' like_success_message c)"
    by (auto simp: forum_task_like_def else_clause_def bound_def
        split: sum.splits prod.splits loop_exit.splits option.splits)
  with n show ?thesis by blast
qed

lemma forum_task_share_outcome:
  assumes "forum_task_share serve rsp c w = (Inr u, c', w')"
  shows "\<exists>n. requests (trace w') = requests (trace w) @ [SHARE_TASK_URL] @ replicate n LIKE_URL \<and>
           ((\<exists>r. c' = record_failure share_failure_message r c \<and> n = 0) \<or>
            (\<exists>r. c' = record_failure like_failure_message r
                         (record_success ''share_post'' share_success_message c)) \<or>
            c' = record_success ''rsp_like_post'' like_success_message
                   (record_success ''share_post'' share_success_message c))"
proof -
  let ?loop = "retry_loop 1 (\<lambda>_. share_post serve rsp) [0..<1] 0 None None w"
  obtain r w1 where l: "?loop = (r, w1)" by (cases ?loop)
  show ?thesis
  proof (cases r)
    case (Inl e)
    with assms l show ?thesis by (simp add: forum_task_share_def)
  next
    case (Inr v)
    obtain ex n rs idx where v: "v = (ex, n, rs, idx)" by (cases v)
    have "retry_loop 1 (\<lambda>_. share_post serve rsp) [0..<1] 0 None None w = (Inr (ex, n, rs, idx), w1)"
      using l Inr v by simp
    moreover have "(\<lambda>_. share_post serve rsp) i w = (Inr r, w1) \<Longrightarrow>
        requests (trace w1) = requests (trace w) @ [SHARE_TASK_URL]" for i :: nat and w r w1
      by (simp add: requests_share_post)
    ultimately have "\<exists>k \<le> length [0..<1::nat]. requests (trace w1) = requests (trace w) @ replicate k SHARE_TASK_URL \<and>
           (ex = Exhausted \<longrightarrow> k = length [0..<1::nat]) \<and> (ex = Break \<longrightarrow> 0 < k)"
      by (rule requests_retry_loop [rotated])
    then obtain k where "k \<le> 1" "requests (trace w1) = requests (trace w) @ replicate k SHARE_TASK_URL"
      "ex = Exhausted \<longrightarrow> k = 1" "ex = Break \<longrightarrow> 0 < k"
      by auto
    moreover from this have "k = 1" by (cases ex) auto
    ultimately have q: "requests (trace w1) = requests (trace w) @ [SHARE_TASK_URL]"
      by simp
    show ?thesis
    proof (cases ex)
      case Exhausted
      with assms l Inr v have "w' = w1 \<and> (\<exists>r. c' = record_failure share_failure_message r c)"
        by (auto simp: forum_task_share_def else_clause_def bound_def split: option.splits)
      with q show ?thesis by (intro exI [of _ 0]) auto
    next
      case Break
      with assms l Inr v have "forum_task_like serve rsp
          (record_success ''share_post'' share_success_message c) w1 = (Inr u, c', w')"
        by (simp add: forum_task_share_def)
      from forum_task_like_outcome [OF this] q show ?thesis by auto
    qed
  qed
qed

lemma forum_task_detail_outcome:
  assumes "forum_task_detail serve rsp c w = (Inr u, c', w')"
  shows "(\<exists>r. c' = record_failure post_detail_failure_message r c \<and>
              requests (trace w') = requests (trace w) @ replicate 5 GET_POST_DETAIL_URL) \<or>
         (\<exists>k n. 0 < k \<and> k \<le> 5 \<and>
            requests (trace w') =
              requests (trace w) @ replicate k GET_POST_DETAIL_URL @ [SHARE_TASK_URL] @
                replicate n LIKE_URL \<and>
            ((\<exists>r. c' = record_failure share_failure_message r
                         (record_success ''get_post_detail'' post_detail_success_message c) \<and> n = 0) \<or>
             (\<exists>r. c' = record_failure like_failure_message r
                         (record_success ''share_post'' share_success_message
                           (record_success ''get_post_detail'' post_detail_success_message c))) \<or>
             c' = record_success ''rsp_like_post'' like_success_message
                   (record_success ''share_post'' share_success_message
                     (record_success ''get_post_detail'' post_detail_success_message c))))"
proof -
  let ?loop = "retry_loop 3 (get_post_detail serve rsp) [0..<5] 0 None None w"
  let ?c1 = "record_success ''get_post_detail'' post_detail_success_message c"
  obtain r w1 where l: "?loop = (r, w1)" by (cases ?loop)
  show ?thesis
  proof (cases r)
    case (Inl e)
    with assms l show ?thesis by (simp add: forum_task_detail_def)
  next
    case (Inr v)
    obtain ex m rs idx where v: "v = (ex, m, rs, idx)" by (cases v)
    have "?loop = (Inr (ex, m, rs, idx), w1)" using l Inr v by simp
    then have "\<exists>k \<le> length [0..<5::nat]. requests (trace w1) = requests (trace w) @ replicate k GET_POST_DETAIL_URL \<and>
           (ex = Exhausted \<longrightarrow> k = length [0..<5::nat]) \<and> (ex = Break \<longrightarrow> 0 < k)"
      by (rule requests_retry_loop [rotated]) (rule requests_get_post_detail)
    then obtain k where k: "k \<le> 5" "requests (trace w1) = requests (trace w) @ replicate k GET_POST_DETAIL_URL"
      "ex = Exhausted \<longrightarrow> k = 5" "ex = Break \<longrightarrow> 0 < k"
      by auto
    show ?thesis
    proof (cases ex)
      case Exhausted
      with assms l Inr v have "w' = w1 \<and> (\<exists>r. c' = record_failure post_detail_failure_message r c)"
        by (auto simp: forum_task_detail_def else_clause_def bound_def split: option.splits)
      with k Exhausted show ?thesis by auto
    next
      case Break
      with assms l Inr v obtain x where
        "forum_task_share serve x ?c1 w1 = (Inr u, c', w')"
        by (auto simp: forum_task_detail_def bound_def split: option.splits)
      from forum_task_share_outcome [OF this] obtain n where
        n: "requests (trace w') = requests (trace w1) @ [SHARE_TASK_URL] @ replicate n LIKE_URL"
        "(\<exists>r. c' = record_failure share_failure_message r ?c1 \<and> n = 0) \<or>
            (\<exists>r. c' = record_failure like_failure_message r
                         (record_success ''share_post'' share_success_message ?c1)) \<or>
            c' = record_success ''rsp_like_post'' like_success_message
                   (record_success ''share_post'' share_success_message ?c1)"
        by blast
      have "0 < k \<and> k \<le> 5 \<and>
            requests (trace w') =
              requests (trace w) @ replicate k GET_POST_DETAIL_URL @ [SHARE_TASK_URL] @
                replicate n LIKE_URL"
        using k Break n(1) by simp
      with n(2) show ?thesis by blast
    qed
  qed
qed

lemma forum_task_outcome:
  assumes "forum_task serve c w = (Inr u, c', w')"
  shows "(\<exists>r. c' = record_failure forum_list_failure_message r c \<and>
              requests (trace w') = requests (trace w) @ [FIND_ROLE_LIST_API_URL, FORUM_LIST_URL]) \<or>
         (\<exists>r. c' = record_failure post_detail_failure_message r
                      (record_success ''get_forum_list'' forum_list_success_message c) \<and>
              requests (trace w') =
                requests (trace w) @ [FIND_ROLE_LIST_API_URL, FORUM_LIST_URL] @
                  replicate 5 GET_POST_DETAIL_URL) \<or>
         (\<exists>k n. 0 < k \<and> k \<le> 5 \<and>
            requests (trace w') =
              requests (trace w) @ [FIND_ROLE_LIST_API_URL, FORUM_LIST_URL] @
                replicate k GET_POST_DETAIL_URL @ [SHARE_TASK_URL] @ replicate n LIKE_URL \<and>
            ((\<exists>r. c' = record_failure share_failure_message r
                         (record_success ''get_post_detail'' post_detail_success_message
                           (record_success ''get_forum_list'' forum_list_success_message c)) \<and> n = 0) \<or>
             (\<exists>r. c' = record_failure like_failure_message r
                         (record_success ''share_post'' share_success_message
                           (record_success ''get_post_detail'' post_detail_success_message
                             (record_success ''get_forum_list'' forum_list_success_message c)))) \<or>
             c' = record_success ''rsp_like_post'' like_success_message
                   (record_success ''share_post'' share_success_message
                     (record_success ''get_post_detail'' post_detail_success_message
                       (record_success ''get_forum_list'' forum_list_success_message c)))))"
proof -
  let ?c1 = "record_success ''get_forum_list'' forum_list_success_message c"
  obtain r w1 where l: "get_forum_list serve w = (r, w1)" by (cases "get_forum_list serve w")
  show ?thesis
  proof (cases r)
    case (Inl e)
    with assms l show ?thesis by (simp add: forum_task_def)
  next
    case (Inr x)
    with l have q: "requests (trace w1) = requests (trace w) @ [FIND_ROLE_LIST_API_URL, FORUM_LIST_URL]"
      by (simp add: requests_get_forum_list)
    show ?thesis
    proof (cases "truthy (success x)")
      case False
      with assms l Inr have "w' = w1 \<and> c' = record_failure forum_list_failure_message x c"
        by (auto simp: forum_task_def)
      with q show ?thesis by blast
    next
      case True
      with assms l Inr have "forum_task_detail serve x ?c1 w1 = (Inr u, c', w')"
        by (simp add: forum_task_def)
      from forum_task_detail_outcome [OF this] show ?thesis
        unfolding q append_assoc by blast
    qed
  qed
qed

lemma exceptions_record [simp]:
  "exceptions (record_failure m r c) = exceptions c @ [failure_text m r]"
  "exceptions (record_success k v c) = exceptions c"
  "result (record_failure m r c) = result c"
  "result (record_success k v c) = dict_set k v (result c)"
  by (simp_all add: record_failure_def record_success_def)

lemma stages_Inr:
  "stages serve c w = (Inr u, c', w') \<Longrightarrow>
   \<exists>c1 w1 c2 w2. checkin_stage serve c w = (Inr (), c1, w1) \<and>
     sign_in_stage serve c1 w1 = (Inr (), c2, w2) \<and> forum_task serve c2 w2 = (Inr (), c', w')"
  by (auto simp: stages_def stage_then_def split: prod.splits sum.splits)

lemma process_sign_action_Inr:
  "process_sign_action name action_method ok_msg fail_msg c w = (Inr u, c1, w1) \<Longrightarrow>
   \<exists>r. action_method w = (Inr r, w1) \<and>
     c1 = (if truthy (success r) then record_success name ok_msg c else record_failure fail_msg r c)"
  by (auto simp: process_sign_action_def split: prod.splits sum.splits if_splits)

lemma start_requests:
  assumes "start serve c w = (r, c', w')"
    and "r = Inr () \<or> (\<exists>e. r = Inl e \<and> is_workflow_failure e)"
  shows "\<exists>rest. requests (trace w') =
           requests (trace w) @
             [FIND_ROLE_LIST_API_URL, SIGN_URL, USER_SIGN_URL, FIND_ROLE_LIST_API_URL, FORUM_LIST_URL] @ rest \<and>
           set rest \<subseteq> {GET_POST_DETAIL_URL, SHARE_TASK_URL, LIKE_URL}"
proof -
  from start_cases [OF assms(1)] assms(2) obtain w3 where
    s: "stages serve c w = (Inr (), c', w3)" and l: "log' c' w3 = (r, c', w')"
    by auto
  from l have t: "requests (trace w') = requests (trace w3)" by (auto simp: log'_eq)
  from stages_Inr [OF s] obtain c1 w1 c2 w2 where
    a: "checkin_stage serve c w = (Inr (), c1, w1)" and
    b: "sign_in_stage serve c1 w1 = (Inr (), c2, w2)" and
    f: "forum_task serve c2 w2 = (Inr (), c', w3)"
    by blast
  from process_sign_action_Inr [OF a [unfolded checkin_stage_def]] requests_checkin
  have 1: "requests (trace w1) = requests (trace w) @ [FIND_ROLE_LIST_API_URL, SIGN_URL]" by blast
  from process_sign_action_Inr [OF b [unfolded sign_in_stage_def]] requests_sign_in
  have 2: "requests (trace w2) = requests (trace w1) @ [USER_SIGN_URL]" by blast
  from forum_task_outcome [OF f]
  have "\<exists>rest. requests (trace w3) = requests (trace w2) @ [FIND_ROLE_LIST_API_URL, FORUM_LIST_URL] @ rest \<and>
           set rest \<subseteq> {GET_POST_DETAIL_URL, SHARE_TASK_URL, LIKE_URL}"
    by (elim disjE exE conjE) auto
  then show ?thesis unfolding t 2 1 by simp
qed

lemma forum_task_no_failure:
  assumes "forum_task serve c w = (Inr u, c', w')" and "exceptions c' = exceptions c"
  shows "result c' =
           dict_set ''rsp_like_post'' like_success_message
             (dict_set ''share_post'' share_success_message
               (dict_set ''get_post_detail'' post_detail_success_message
                 (dict_set ''get_forum_list'' forum_list_success_message (result c))))"
  using forum_task_outcome [OF assms(1)] assms(2)
  by (elim disjE exE conjE) auto

lemma ok_count_Suc:
  "ok_count f (Suc n) = (if truthy (success (f n)) then ok_count f n + 1 else ok_count f n)"
  by (simp add: ok_count_def)

lemma attempts_step: "a < n \<Longrightarrow> [ev a, Sleep 1 2] @ attempts ev (Suc a) n = attempts ev a n"
  by (simp add: attempts_def upt_conv_Cons)

lemma retry_loop_simulated:
  assumes sim: "simulates N action f ev"
    and "a \<le> N" and "a = 0 \<or> ok_count f a < K"
  shows "\<exists>ex n w'.
           retry_loop K action [a..<N] (ok_count f a) (map_option f (last_index a)) (last_index a) w =
             (Inr (ex, ok_count f n, map_option f (last_index n), last_index n), w') \<and>
           a \<le> n \<and> n \<le> N \<and>
           trace w' = trace w @ attempts ev a n \<and>
           (\<forall>m. a < m \<and> m < n \<longrightarrow> ok_count f m < K) \<and>
           (ex = Break) = (a < n \<and> K \<le> ok_count f n) \<and>
           (ex = Exhausted) = (n = N \<and> (n = a \<or> ok_count f n < K))"
  using assms(2,3)
proof (induction "N - a" arbitrary: a w)
  case 0
  then have "a = N" by simp
  then show ?case
    by (intro exI [of _ Exhausted] exI [of _ a] exI [of _ w]) (simp add: attempts_def)
next
  case (Suc d)
  then have lt: "a < N" by simp
  then have range: "[a..<N] = a # [Suc a..<N]" by (simp add: upt_conv_Cons)
  from sim lt obtain w1 where a: "action a w = (Inr (f a), w1)" "trace w1 = trace w @ [ev a]"
    unfolding simulates_def by blast
  let ?w2 = "sleep_uniform 1 2 w1"
  have t2: "trace ?w2 = trace w @ [ev a, Sleep 1 2]"
    using a by (simp add: sleep_uniform_def)
  have li: "last_index (Suc a) = Some a" by (simp add: last_index_def)
  show ?case
  proof (cases "K \<le> ok_count f (Suc a)")
    case True
    have "retry_loop K action [a..<N] (ok_count f a) (map_option f (last_index a)) (last_index a) w =
        (Inr (Break, ok_count f (Suc a), map_option f (last_index (Suc a)), last_index (Suc a)), ?w2)"
      using a True unfolding range li by (simp add: ok_count_Suc Let_def)
    moreover have "trace ?w2 = trace w @ attempts ev a (Suc a)"
      using t2 by (simp add: attempts_def)
    ultimately show ?thesis using True lt
      by (intro exI [of _ Break] exI [of _ "Suc a"] exI [of _ ?w2]) auto
  next
    case False
    then have nb: "ok_count f (Suc a) < K" by simp
    have step: "retry_loop K action [a..<N] (ok_count f a) (map_option f (last_index a)) (last_index a) w =
        retry_loop K action [Suc a..<N] (ok_count f (Suc a)) (map_option f (last_index (Suc a)))
          (last_index (Suc a)) ?w2"
      using a False unfolding range li by (simp add: ok_count_Suc Let_def)
    have "d = N - Suc a" using Suc.hyps(2) by simp
    from Suc.hyps(1) [OF this, of ?w2] lt nb obtain ex n w' where
      ih: "retry_loop K action [Suc a..<N] (ok_count f (Suc a)) (map_option f (last_index (Suc a)))
             (last_index (Suc a)) ?w2 =
             (Inr (ex, ok_count f n, map_option f (last_index n), last_index n), w')"
        "Suc a \<le> n" "n \<le> N" "trace w' = trace ?w2 @ attempts ev (Suc a) n"
        "\<forall>m. Suc a < m \<and> m < n \<longrightarrow> ok_count f m < K"
        "(ex = Break) = (Suc a < n \<and> K \<le> ok_count f n)"
        "(ex = Exhausted) = (n = N \<and> (n = Suc a \<or> ok_count f n < K))"
      by auto
    have tr: "trace w' = trace w @ attempts ev a n"
      using ih(2,4) t2 attempts_step [of a n ev] by simp
    have m: "\<forall>m. a < m \<and> m < n \<longrightarrow> ok_count f m < K"
    proof (intro allI impI)
      fix m assume "a < m \<and> m < n"
      then have "m = Suc a \<or> (Suc a < m \<and> m < n)" by auto
      then show "ok_count f m < K" using nb ih(5) by auto
    qed
    have b: "(ex = Break) = (a < n \<and> K \<le> ok_count f n)"
      using ih(2,6) nb by (cases "n = Suc a") auto
    have e: "(ex = Exhausted) = (n = N \<and> (n = a \<or> ok_count f n < K))"
      using ih(2,7) nb by (cases "n = Suc a") auto
    show ?thesis
      using step ih(1,2,3) tr m b e
      by (intro exI [of _ ex] exI [of _ n] exI [of _ w']) auto
  qed
qed

subsection \<open>The like/unlike loop\<close>

lemma like_post_gateway:
  assumes "like_gateway serve rsp phase flip"
  shows "\<exists>r w1. like_post serve rsp 1 w = (Inr r, w1) \<and> truthy (success r) \<and>
           phase (server w1) = phase (server w) \<and>
           requests (trace w1) = requests (trace w) @ [LIKE_URL]"
    and "\<exists>r w1. like_post serve rsp 2 w = (Inr r, w1) \<and> truthy (success r) = phase (server w) \<and>
           phase (server w1) = flip (phase (server w)) \<and>
           requests (trace w1) = requests (trace w) @ [LIKE_URL]"
proof -
  from assms obtain d1 d2 where d: "like_post_data rsp 1 = Inr d1" "like_post_data rsp 2 = Inr d2"
    and l: "\<And>s. \<exists>r s'. serve s LIKE_URL d1 = (Reply r, s') \<and> truthy (success r) \<and> phase s' = phase s"
    and u: "\<And>s. \<exists>r s'. serve s LIKE_URL d2 = (Reply r, s') \<and> truthy (success r) = phase s \<and>
                phase s' = flip (phase s)"
    unfolding like_gateway_def by blast
  from l [of "server w"] d(1)
  show "\<exists>r w1. like_post serve rsp 1 w = (Inr r, w1) \<and> truthy (success r) \<and>
           phase (server w1) = phase (server w) \<and>
           requests (trace w1) = requests (trace w) @ [LIKE_URL]"
    by (auto simp: like_post_def py_bind_def py_pure_def make_request_def)
  from u [of "server w"] d(2)
  show "\<exists>r w1. like_post serve rsp 2 w = (Inr r, w1) \<and> truthy (success r) = phase (server w) \<and>
           phase (server w1) = flip (phase (server w)) \<and>
           requests (trace w1) = requests (trace w) @ [LIKE_URL]"
    by (auto simp: like_post_def py_bind_def py_pure_def make_request_def)
qed

lemma like_step_gateway:
  assumes "like_gateway serve rsp phase flip"
  shows "\<exists>r w1. like_step serve rsp True rl w = (Inr (Some r), w1) \<and> truthy (success r) \<and>
           phase (server w1) = phase (server w) \<and>
           requests (trace w1) = requests (trace w) @ [LIKE_URL]"
  using like_post_gateway(1) [OF assms, of w]
  by (auto simp: like_step_def py_bind_def py_pure_def)

lemma unlike_step_gateway:
  assumes "like_gateway serve rsp phase flip" and "truthy (success r)"
  shows "\<exists>w2. unlike_step serve rsp (Some r) flag sc w =
             (Inr (if phase (server w) then (sc + 1, True) else (sc, False)), w2) \<and>
           phase (server w2) = flip (phase (server w)) \<and>
           requests (trace w2) = requests (trace w) @ [LIKE_URL]"
  using like_post_gateway(2) [OF assms(1), of "sleep_uniform 1 2 w"] assms(2)
  by (auto simp: unlike_step_def py_bind_def py_pure_def bound_def sleep_uniform_def)

lemma like_loop_gateway:
  assumes g: "like_gateway serve rsp phase flip"
    and "\<not> flag \<longrightarrow> (\<exists>r. rl = Some r \<and> truthy (success r))"
    and "like_spec flip xs flag sc (phase (server w)) idx = (ex, n, idx', k)"
  shows "\<exists>rl' w'. like_loop serve rsp xs flag sc rl idx w = (Inr (ex, n, rl', idx'), w') \<and>
           requests (trace w') = requests (trace w) @ replicate k LIKE_URL \<and>
           (if xs = [] then rl' = rl else \<exists>r. rl' = Some r \<and> truthy (success r))"
  using assms(2,3)
proof (induction xs arbitrary: flag sc rl idx w ex n idx' k)
  case Nil
  then show ?case by auto
next
  case (Cons i rest)
  have "\<exists>r w1. like_step serve rsp flag rl w = (Inr (Some r), w1) \<and> truthy (success r) \<and>
           phase (server w1) = phase (server w) \<and>
           requests (trace w1) = requests (trace w) @ replicate (if flag then 1 else 0) LIKE_URL"
  proof (cases flag)
    case True
    with like_step_gateway [OF g, of rl w] show ?thesis by auto
  next
    case False
    with Cons.prems(1) show ?thesis by (auto simp: like_step_def py_pure_def)
  qed
  then obtain r w1 where 1: "like_step serve rsp flag rl w = (Inr (Some r), w1)" "truthy (success r)"
    "phase (server w1) = phase (server w)"
    "requests (trace w1) = requests (trace w) @ replicate (if flag then 1 else 0) LIKE_URL"
    by blast
  from unlike_step_gateway [OF g 1(2), of flag sc w1] obtain w2 where
    2: "unlike_step serve rsp (Some r) flag sc w1 =
             (Inr (if phase (server w1) then (sc + 1, True) else (sc, False)), w2)"
    "phase (server w2) = flip (phase (server w1))"
    "requests (trace w2) = requests (trace w1) @ [LIKE_URL]"
    by blast
  let ?ph = "phase (server w)"
  let ?sc = "if ?ph then sc + 1 else sc"
  let ?w3 = "sleep_uniform 1 2 w2"
  have q3: "requests (trace ?w3) = requests (trace w) @ replicate (if flag then 2 else 1) LIKE_URL"
    using 1(4) 2(3) by (simp add: replicate_append_same numeral_2_eq_2)
  have p3: "phase (server ?w3) = flip ?ph" using 1(3) 2(2) by (simp add: sleep_uniform_def)
  show ?case
  proof (cases "5 \<le> ?sc")
    case True
    with Cons.prems(2) have "ex = Break" "n = ?sc" "idx' = Some i" "k = (if flag then 2 else 1)"
      by (auto simp: Let_def split: if_splits)
    moreover have "like_loop serve rsp (i # rest) flag sc rl idx w = (Inr (Break, ?sc, Some r, Some i), ?w3)"
      using 1 2 True by (auto simp: Let_def)
    ultimately show ?thesis using q3 1(2) by auto
  next
    case False
    obtain ex2 n2 idx2 k2 where
      s: "like_spec flip rest ?ph ?sc (flip ?ph) (Some i) = (ex2, n2, idx2, k2)"
      by (cases "like_spec flip rest ?ph ?sc (flip ?ph) (Some i)") auto
    with Cons.prems(2) False have e: "ex = ex2" "n = n2" "idx' = idx2" "k = (if flag then 2 else 1) + k2"
      by (auto simp: Let_def split: if_splits)
    have inv: "\<not> ?ph \<longrightarrow> (\<exists>x. Some r = Some x \<and> truthy (success x))" using 1(2) by simp
    from s have "like_spec flip rest ?ph ?sc (phase (server ?w3)) (Some i) = (ex2, n2, idx2, k2)"
      using p3 by simp
    from Cons.IH [OF inv this] obtain rl' w' where
      ih: "like_loop serve rsp rest ?ph ?sc (Some r) (Some i) ?w3 = (Inr (ex2, n2, rl', idx2), w')"
      "requests (trace w') = requests (trace ?w3) @ replicate k2 LIKE_URL"
      "if rest = [] then rl' = Some r else \<exists>x. rl' = Some x \<and> truthy (success x)"
      by blast
    have "like_loop serve rsp (i # rest) flag sc rl idx w =
        like_loop serve rsp rest ?ph ?sc (Some r) (Some i) ?w3"
      using 1 2 False by (auto simp: Let_def)
    moreover have "requests (trace w') = requests (trace w) @ replicate k LIKE_URL"
      using ih(2) q3 e(4) by (simp add: replicate_add)
    moreover have "\<exists>x. rl' = Some x \<and> truthy (success x)"
      using ih(3) 1(2) by (cases "rest = []") auto
    ultimately show ?thesis using ih(1) e by auto
  qed
qed

lemma unlike_step_count:
  "unlike_step serve rsp rl flag sc w = (Inr (sc', flag'), w2) \<Longrightarrow> sc' = sc \<or> sc' = sc + 1"
  by (auto simp: unlike_step_def py_bind_def py_pure_def bound_def
      split: sum.splits prod.splits option.splits if_splits)

lemma like_loop_exit:
  assumes "like_loop serve rsp xs flag sc rl idx w = (Inr (ex, n, rl', idx'), w')" and "sc < 5"
  shows "(ex = Break \<longrightarrow> n = 5 \<and> (\<exists>i \<in> set xs. idx' = Some i)) \<and>
         (ex = Exhausted \<longrightarrow> n < 5 \<and> idx' = (if xs = [] then idx else Some (last xs)))"
  using assms
proof (induction xs arbitrary: flag sc rl idx w)
  case Nil
  then show ?case by auto
next
  case (Cons i rest)
  obtain r1 w1 where a: "like_step serve rsp flag rl w = (r1, w1)"
    by (cases "like_step serve rsp flag rl w")
  show ?case
  proof (cases r1)
    case (Inl e)
    with a Cons.prems show ?thesis by simp
  next
    case (Inr x)
    obtain r2 w2 where b: "unlike_step serve rsp x flag sc w1 = (r2, w2)"
      by (cases "unlike_step serve rsp x flag sc w1")
    show ?thesis
    proof (cases r2)
      case (Inl e)
      with a b Inr Cons.prems show ?thesis by simp
    next
      case (Inr p)
      obtain sc' flag' where p: "p = (sc', flag')" by (cases p)
      from unlike_step_count b Inr p have c: "sc' = sc \<or> sc' = sc + 1" by blast
      show ?thesis
      proof (cases "5 \<le> sc'")
        case True
        with a b \<open>r1 = Inr x\<close> Inr p Cons.prems(1) have "ex = Break" "n = sc'" "idx' = Some i"
          by (auto simp: Let_def)
        with c True Cons.prems(2) show ?thesis by auto
      next
        case False
        with a b \<open>r1 = Inr x\<close> Inr p Cons.prems(1) have
          "like_loop serve rsp rest flag' sc' x (Some i) (sleep_uniform 1 2 w2) = (Inr (ex, n, rl', idx'), w')"
          by (auto simp: Let_def)
        from Cons.IH [OF this] False show ?thesis by auto
      qed
    qed
  qed
qed

lemma like_spec_values:
  "like_spec Not [0..<9] True 0 True None = (Break, 5, Some 8, 14)"
  "like_spec Not [0..<9] True 0 False None = (Exhausted, 4, Some 8, 14)"
  "like_spec (\<lambda>b. b) [0..<9] True 0 False None = (Exhausted, 0, Some 8, 10)"
  by (simp_all add: upt_rec)

subsection \<open>A gateway that always reports success\<close>

lemma make_request_ok:
  assumes "always_ok serve"
  shows "\<exists>r w1. make_request serve ep d w = (Inr r, w1) \<and> truthy (success r) \<and> reply_fits ep r \<and>
           requests (trace w1) = requests (trace w) @ [ep]"
proof -
  from assms obtain r s' where "serve (server w) ep d = (Reply r, s')" "truthy (success r)" "reply_fits ep r"
    unfolding always_ok_def by blast
  then show ?thesis by (auto simp: make_request_def)
qed

lemma get_user_game_list_ok:
  assumes "always_ok serve"
  shows "\<exists>r w1. get_user_game_list serve g w = (Inr (data r), w1) \<and>
           reply_fits FIND_ROLE_LIST_API_URL r \<and>
           requests (trace w1) = requests (trace w) @ [FIND_ROLE_LIST_API_URL]"
  using make_request_ok [OF assms, of FIND_ROLE_LIST_API_URL "JDict [(''gameId'', JInt g)]" w]
  by (auto simp: get_user_game_list_def py_bind_def py_pure_def)

lemma role_fits:
  assumes "reply_fits FIND_ROLE_LIST_API_URL r"
  obtains kvs where "subscript_idx (data r) 0 = Inr (JDict kvs)"
  using assms by (auto split: sum.splits json.splits)

lemma checkin_ok:
  assumes "always_ok serve"
  shows "\<exists>r w1. checkin serve w = (Inr r, w1) \<and> truthy (success r) \<and>
           requests (trace w1) = requests (trace w) @ [FIND_ROLE_LIST_API_URL, SIGN_URL]"
proof -
  from get_user_game_list_ok [OF assms, of 3 w] obtain r0 w0 where
    0: "get_user_game_list serve 3 w = (Inr (data r0), w0)" "reply_fits FIND_ROLE_LIST_API_URL r0"
    "requests (trace w0) = requests (trace w) @ [FIND_ROLE_LIST_API_URL]"
    by blast
  from role_fits [OF 0(2)] obtain kvs where k: "subscript_idx (data r0) 0 = Inr (JDict kvs)" by blast
  then have "\<exists>d. checkin_data (data r0) (beijing_month w0) = Inr d"
    by (simp add: checkin_data_def ebind_def split: option.split)
  then obtain d where "checkin_data (data r0) (beijing_month w0) = Inr d" ..
  then have d: "checkin serve w = make_request serve SIGN_URL d w0"
    using 0(1) by (simp add: checkin_def py_bind_def py_pure_def)
  from make_request_ok [OF assms, of SIGN_URL d w0] 0(3) show ?thesis
    unfolding d by auto
qed

lemma sign_in_ok:
  assumes "always_ok serve"
  shows "\<exists>r w1. sign_in serve w = (Inr r, w1) \<and> truthy (success r) \<and>
           requests (trace w1) = requests (trace w) @ [USER_SIGN_URL]"
  using make_request_ok [OF assms, of USER_SIGN_URL _ w]
  by (auto simp: sign_in_def)

lemma get_forum_list_ok:
  assumes "always_ok serve"
  shows "\<exists>r w1. get_forum_list serve w = (Inr r, w1) \<and> truthy (success r) \<and>
           reply_fits FORUM_LIST_URL r \<and>
           requests (trace w1) = requests (trace w) @ [FIND_ROLE_LIST_API_URL, FORUM_LIST_URL]"
proof -
  from get_user_game_list_ok [OF assms, of 3 w] obtain r0 w0 where
    0: "get_user_game_list serve 3 w = (Inr (data r0), w0)" "reply_fits FIND_ROLE_LIST_API_URL r0"
    "requests (trace w0) = requests (trace w) @ [FIND_ROLE_LIST_API_URL]"
    by blast
  from role_fits [OF 0(2)] obtain kvs where k: "subscript_idx (data r0) 0 = Inr (JDict kvs)" by blast
  then have "\<exists>d. get_forum_list_data (data r0) = Inr d"
    by (simp add: get_forum_list_data_def ebind_def split: option.split)
  then obtain d where "get_forum_list_data (data r0) = Inr d" ..
  then have d: "get_forum_list serve w = make_request serve FORUM_LIST_URL d w0"
    using 0(1) by (simp add: get_forum_list_def py_bind_def py_pure_def)
  from make_request_ok [OF assms, of FORUM_LIST_URL d w0] 0(3) show ?thesis
    unfolding d by auto
qed

lemma get_post_detail_ok:
  assumes "always_ok serve" and "reply_fits FORUM_LIST_URL rsp" and "i < 3"
  shows "\<exists>r w1. get_post_detail serve rsp i w = (Inr r, w1) \<and> truthy (success r) \<and>
           reply_fits GET_POST_DETAIL_URL r \<and>
           requests (trace w1) = requests (trace w) @ [GET_POST_DETAIL_URL]"
proof -
  from assms(3) have "i = 0 \<or> i = 1 \<or> i = 2" by arith
  with assms(2) obtain d where "get_post_detail_data rsp i = Inr d"
    by (cases "get_post_detail_data rsp i") auto
  then have d: "get_post_detail serve rsp i w = make_request serve GET_POST_DETAIL_URL d w"
    by (simp add: get_post_detail_def py_bind_def py_pure_def)
  from make_request_ok [OF assms(1), of GET_POST_DETAIL_URL d w] show ?thesis
    unfolding d by auto
qed

lemma share_post_ok:
  assumes "always_ok serve" and "reply_fits GET_POST_DETAIL_URL rsp"
  shows "\<exists>r w1. share_post serve rsp w = (Inr r, w1) \<and> truthy (success r) \<and>
           requests (trace w1) = requests (trace w) @ [SHARE_TASK_URL]"
proof -
  from assms(2) obtain g where "subscript_key (data rsp) ''gameId'' = Inr g"
    by (auto simp: like_post_data_def ebind_def split: sum.splits)
  then obtain d where "share_post_data rsp = Inr d"
    by (simp add: share_post_data_def ebind_def)
  then have d: "share_post serve rsp w = make_request serve SHARE_TASK_URL d w"
    by (simp add: share_post_def py_bind_def py_pure_def)
  from make_request_ok [OF assms(1), of SHARE_TASK_URL d w] show ?thesis
    unfolding d by auto
qed

lemma like_gateway_ok:
  assumes "always_ok serve" and "reply_fits GET_POST_DETAIL_URL rsp"
  shows "like_gateway serve rsp (\<lambda>s. True) (\<lambda>b. b)"
proof -
  from assms(2) obtain d1 d2 where "like_post_data rsp 1 = Inr d1" "like_post_data rsp 2 = Inr d2"
    by (cases "like_post_data rsp 1"; cases "like_post_data rsp 2") auto
  moreover from assms(1) have "\<exists>r s'. serve s LIKE_URL d = (Reply r, s') \<and> truthy (success r)" for s d
    unfolding always_ok_def by blast
  ultimately show ?thesis unfolding like_gateway_def by simp
qed

lemma forum_task_like_ok:
  assumes "always_ok serve" and "reply_fits GET_POST_DETAIL_URL rsp"
  shows "\<exists>w1. forum_task_like serve rsp c w =
             (Inr (), record_success ''rsp_like_post'' like_success_message c, w1) \<and>
           requests (trace w1) = requests (trace w) @ replicate 10 LIKE_URL"
proof -
  have s: "like_spec (\<lambda>b. b) [0..<9] True 0 ((\<lambda>s. True) (server w)) None = (Break, 5, Some 4, 10)"
    by (simp add: upt_rec)
  from like_loop_gateway [where rl = None and w = w, OF like_gateway_ok [OF assms] _ s]
  obtain rl' w1 where
    "like_loop serve rsp [0..<9] True 0 None None w = (Inr (Break, 5, rl', Some 4), w1)"
    "requests (trace w1) = requests (trace w) @ replicate 10 LIKE_URL"
    by auto
  then show ?thesis by (auto simp: forum_task_like_def)
qed

lemma forum_task_share_ok:
  assumes "always_ok serve" and "reply_fits GET_POST_DETAIL_URL rsp"
  shows "\<exists>w1. forum_task_share serve rsp c w =
             (Inr (), record_success ''rsp_like_post'' like_success_message
                        (record_success ''share_post'' share_success_message c), w1) \<and>
           requests (trace w1) = requests (trace w) @ SHARE_TASK_URL # replicate 10 LIKE_URL"
proof -
  from share_post_ok [OF assms, of w] obtain r w0 where
    0: "share_post serve rsp w = (Inr r, w0)" "truthy (success r)"
    "requests (trace w0) = requests (trace w) @ [SHARE_TASK_URL]"
    by blast
  from forum_task_like_ok [OF assms, of "record_success ''share_post'' share_success_message c"
      "sleep_uniform 1 2 w0"] 0
  show ?thesis
    by (auto simp: forum_task_share_def upt_rec Let_def)
qed

lemma forum_task_detail_ok:
  assumes "always_ok serve" and "reply_fits FORUM_LIST_URL rsp"
  shows "\<exists>w1. forum_task_detail serve rsp c w =
             (Inr (), record_success ''rsp_like_post'' like_success_message
                        (record_success ''share_post'' share_success_message
                          (record_success ''get_post_detail'' post_detail_success_message c)), w1) \<and>
           requests (trace w1) =
             requests (trace w) @ replicate 3 GET_POST_DETAIL_URL @ SHARE_TASK_URL # replicate 10 LIKE_URL"
proof -
  from get_post_detail_ok [OF assms, of 0 w] obtain ra wa where
    a: "get_post_detail serve rsp 0 w = (Inr ra, wa)" "truthy (success ra)"
    "requests (trace wa) = requests (trace w) @ [GET_POST_DETAIL_URL]"
    by auto
  from get_post_detail_ok [OF assms, of 1 "sleep_uniform 1 2 wa"] obtain rb wb where
    b: "get_post_detail serve rsp (Suc 0) (sleep_uniform 1 2 wa) = (Inr rb, wb)" "truthy (success rb)"
    "requests (trace wb) = requests (trace (sleep_uniform 1 2 wa)) @ [GET_POST_DETAIL_URL]"
    by auto
  from get_post_detail_ok [OF assms, of 2 "sleep_uniform 1 2 wb"] obtain rc wc where
    c: "get_post_detail serve rsp (Suc (Suc 0)) (sleep_uniform 1 2 wb) = (Inr rc, wc)" "truthy (success rc)"
    "reply_fits GET_POST_DETAIL_URL rc"
    "requests (trace wc) = requests (trace (sleep_uniform 1 2 wb)) @ [GET_POST_DETAIL_URL]"
    by (auto simp: numeral_2_eq_2)
  have l: "retry_loop 3 (get_post_detail serve rsp) [0..<5] 0 None None w =
      (Inr (Break, 3, Some rc, Some 2), sleep_uniform 1 2 wc)"
    using a b c by (simp add: upt_rec Let_def numeral_2_eq_2)
  from forum_task_share_ok [OF assms(1) c(3),
      of "record_success ''get_post_detail'' post_detail_success_message c" "sleep_uniform 1 2 wc"]
  show ?thesis
    using l a(3) b(3) c(4) by (auto simp: forum_task_detail_def bound_def numeral_3_eq_3)
qed

lemma forum_task_ok:
  assumes "always_ok serve"
  shows "\<exists>w1. forum_task serve c w =
             (Inr (), record_success ''rsp_like_post'' like_success_message
                        (record_success ''share_post'' share_success_message
                          (record_success ''get_post_detail'' post_detail_success_message
                            (record_success ''get_forum_list'' forum_list_success_message c))), w1) \<and>
           requests (trace w1) =
             requests (trace w) @ [FIND_ROLE_LIST_API_URL, FORUM_LIST_URL] @
               replicate 3 GET_POST_DETAIL_URL @ SHARE_TASK_URL # replicate 10 LIKE_URL"
proof -
  from get_forum_list_ok [OF assms, of w] obtain r w0 where
    0: "get_forum_list serve w = (Inr r, w0)" "truthy (success r)" "reply_fits FORUM_LIST_URL r"
    "requests (trace w0) = requests (trace w) @ [FIND_ROLE_LIST_API_URL, FORUM_LIST_URL]"
    by blast
  from forum_task_detail_ok [OF assms 0(3),
      of "record_success ''get_forum_list'' forum_list_success_message c" w0] 0
  show ?thesis by (auto simp: forum_task_def)
qed


lemma start_ok:
  assumes "always_ok serve" and "exceptions c = []"
  shows "\<exists>c' w'. start serve c w = (Inr (), c', w') \<and> result c' = all_recorded (result c) \<and>
           exceptions c' = [] \<and>
           requests (trace w') = requests (trace w) @
             [FIND_ROLE_LIST_API_URL, SIGN_URL, USER_SIGN_URL, FIND_ROLE_LIST_API_URL,
              FORUM_LIST_URL] @ replicate 3 GET_POST_DETAIL_URL @ SHARE_TASK_URL #
             replicate 10 LIKE_URL"
proof -
  define c1 where "c1 = record_success ''checkin'' checkin_success_message c"
  define c2 where "c2 = record_success ''sign_in'' sign_in_success_message c1"
  define c3 where "c3 = record_success ''rsp_like_post'' like_success_message
     (record_success ''share_post'' share_success_message
       (record_success ''get_post_detail'' post_detail_success_message
         (record_success ''get_forum_list'' forum_list_success_message c2)))"
  from checkin_ok [OF assms(1), of w] obtain r1 w1 where
    1: "checkin serve w = (Inr r1, w1)" "truthy (success r1)"
    "requests (trace w1) = requests (trace w) @ [FIND_ROLE_LIST_API_URL, SIGN_URL]"
    by blast
  from sign_in_ok [OF assms(1), of w1] obtain r2 w2 where
    2: "sign_in serve w1 = (Inr r2, w2)" "truthy (success r2)"
    "requests (trace w2) = requests (trace w1) @ [USER_SIGN_URL]"
    by blast
  from forum_task_ok [OF assms(1), of c2 w2] obtain w3 where
    3: "forum_task serve c2 w2 = (Inr (), c3, w3)"
    "requests (trace w3) = requests (trace w2) @ [FIND_ROLE_LIST_API_URL, FORUM_LIST_URL] @
       replicate 3 GET_POST_DETAIL_URL @ SHARE_TASK_URL # replicate 10 LIKE_URL"
    unfolding c3_def by blast
  have a: "checkin_stage serve c w = (Inr (), c1, w1)"
    using 1 by (simp add: checkin_stage_def process_sign_action_def c1_def)
  have b: "sign_in_stage serve c1 w1 = (Inr (), c2, w2)"
    using 2 by (simp add: sign_in_stage_def process_sign_action_def c2_def)
  have e: "exceptions c3 = []"
    using assms(2) by (simp add: c3_def c2_def c1_def)
  have r: "result c3 = all_recorded (result c)"
    by (simp add: c3_def c2_def c1_def all_recorded_def)
  obtain w4 where l: "log' c3 w3 = (Inr (), c3, w4)" "requests (trace w4) = requests (trace w3)"
    using e by (auto simp: log'_def Let_def requests_append)
  have "start serve c w = (Inr (), c3, w4)"
    using a b 3(1) l(1) by (simp add: start_def stage_then_def)
  then show ?thesis
    using e r l(2) 3(2) 2(3) 1(3) by simp
qed

lemma all_recorded_values:
  "dict_values (all_recorded []) =
     [checkin_success_message, sign_in_success_message, forum_list_success_message,
      post_detail_success_message, share_success_message, like_success_message]"
  "all_recorded (all_recorded []) = all_recorded []"
  by (simp_all add: all_recorded_def dict_values_def)

lemma rerun_ok:
  assumes "always_ok serve" and "exceptions c = []"
    and "result c = [] \<or> result c = all_recorded []"
  shows "\<exists>c' w'. rerun serve n c w = (Inr (), c', w') \<and> result c' = all_recorded [] \<and>
           exceptions c' = []"
proof (induction n)
  case 0
  from start_ok [OF assms(1,2), of w] assms(3) show ?case
    by (auto simp: all_recorded_values)
next
  case (Suc n)
  then obtain c1 w1 where 1: "rerun serve n c w = (Inr (), c1, w1)"
    "result c1 = all_recorded []" "exceptions c1 = []"
    by blast
  from start_ok [OF assms(1) 1(3), of w1] 1 show ?case
    by (auto simp: stage_then_def all_recorded_values)
qed

lemma always_ok_mock_ok: "always_ok mock_ok"
proof -
  have "reply_fits ep (ok_response (mock_data ep))" for ep
    by (cases ep)
      (simp_all add: ok_response_def role_list_data_def forum_list_data_def post_detail_data_def
        get_post_detail_data_def like_post_data_def postDetail_field_def ebind_def)
  then show ?thesis
    by (simp add: always_ok_def mock_ok_def ok_response_def truthy_def)
qed

section \<open>The entry point\<close>

lemma init_cases:
  "init tok u w = (r, w0) \<Longrightarrow>
   (\<exists>evs. trace w0 = trace w @ evs \<and> notifications evs = []) \<and>
   format_field w0 = format_field w \<and> (\<forall>e. r = Inl e \<longrightarrow> e = TypeError)"
  by (auto simp: init_def generate_fixed_string_def Let_def split: option.splits if_splits)

lemma init_Some:
  "u \<noteq> [] \<Longrightarrow> \<exists>k. init tok (Some u) w = (Inr k, w) \<and> result k = [] \<and> exceptions k = []"
  by (simp add: init_def generate_fixed_string_def)

lemma scan_format_plain:
  "\<forall>c \<in> set m. c \<noteq> CHR ''{'' \<and> c \<noteq> CHR ''}'' \<Longrightarrow>
   scan_format Literal [] m = Some (map Text m)"
  by (induction m) simp_all

lemma render_Text: "render env (map Text m) = Some m"
  by (induction m) simp_all

text \<open>A text without braces is its own formatting.\<close>

lemma str_format_plain:
  "\<forall>c \<in> set m. c \<noteq> CHR ''{'' \<and> c \<noteq> CHR ''}'' \<Longrightarrow> str_format env m = Some m"
  by (simp add: str_format_def scan_format_plain render_Text)

lemma start_format_field:
  assumes "start serve c w = (r, c', w')"
  shows "format_field w' = format_field w"
proof -
  obtain r1 c1 w1 where s: "stages serve c w = (r1, c1, w1)" by (cases "stages serve c w")
  with stage_ok_stages [of c w serve] have "format_field w1 = format_field w"
    by (simp add: stage_ok_def run_ok_def)
  with assms s show ?thesis
    by (auto simp: start_stages stage_then_def log'_eq split: sum.splits)
qed

section \<open>A stage that raises\<close>

lemma process_sign_action_Inl:
  "process_sign_action name action_method ok_msg fail_msg c w = (Inl e, c1, w1) \<Longrightarrow>
   c1 = c \<and> action_method w = (Inl e, w1)"
  by (auto simp: process_sign_action_def split: prod.splits sum.splits if_splits)

lemma else_clause_Inl: "else_clause m rsp c w = (Inl e, c1, w1) \<Longrightarrow> c1 = c"
  by (auto simp: else_clause_def split: sum.splits)

lemma forum_task_like_Inl:
  "forum_task_like serve rsp c w = (Inl e, c1, w1) \<Longrightarrow> c1 = c"
  by (auto simp: forum_task_like_def dest: else_clause_Inl
      split: prod.splits sum.splits loop_exit.splits)

lemma forum_task_share_Inl:
  "forum_task_share serve rsp c w = (Inl e, c1, w1) \<Longrightarrow>
   exceptions c1 = exceptions c"
  by (auto simp: forum_task_share_def dest: else_clause_Inl forum_task_like_Inl
      split: prod.splits sum.splits loop_exit.splits)

lemma forum_task_detail_Inl:
  "forum_task_detail serve rsp c w = (Inl e, c1, w1) \<Longrightarrow>
   exceptions c1 = exceptions c"
  by (auto simp: forum_task_detail_def dest: else_clause_Inl forum_task_share_Inl
      split: prod.splits sum.splits loop_exit.splits)

lemma forum_task_Inl:
  "forum_task serve c w = (Inl e, c1, w1) \<Longrightarrow> exceptions c1 = exceptions c"
  by (auto simp: forum_task_def dest: forum_task_detail_Inl
      split: prod.splits sum.splits if_splits)

text \<open>Where an exception of \<^verbatim>\<open>start\<close> that is not the aggregate failure came from.\<close>

lemma stages_Inl:
  assumes "stages serve c w = (Inl e, c', w')"
  shows "checkin_stage serve c w = (Inl e, c', w') \<or>
         (\<exists>c1 w1. checkin_stage serve c w = (Inr (), c1, w1) \<and>
            sign_in_stage serve c1 w1 = (Inl e, c', w')) \<or>
         (\<exists>c1 w1 c2 w2. checkin_stage serve c w = (Inr (), c1, w1) \<and>
            sign_in_stage serve c1 w1 = (Inr (), c2, w2) \<and>
            forum_task serve c2 w2 = (Inl e, c', w'))"
  using assms by (auto simp: stages_def stage_then_def split: prod.splits sum.splits)

section \<open>The claims\<close>




text \<open>
  C4, as the code has it. A transport failure is not swallowed: \<^verbatim>\<open>make_request\<close> raises
  it, and no stage catches it. In a run of \<^verbatim>\<open>start\<close> a remote call fails at the transport
  level exactly when \<^verbatim>\<open>start\<close> raises a transport error; the exception is that of the failed
  call, the failed call is the last effect of the run (nothing of the run follows it) and
  no earlier call failed. The exception leaves the stage that made the call, and that stage
  records nothing for it: a check-in or sign-in that raises leaves the client as it found
  it, a forum task that raises leaves the list of failures as it found it, and the later
  stages are not run. \<^verbatim>\<open>main\<close> then logs the exception and ends with status 1, without a
  notification.
\<close>

theorem transport_failure_propagates:
  "(serve (server w) ep d = (Unreachable, s') \<longrightarrow>
      fst (make_request serve ep d w) = Inl RequestException) \<and>
   (serve (server w) ep d = (Unparseable, s') \<longrightarrow>
      fst (make_request serve ep d w) = Inl ValidationError) \<and>
   (clean (trace w) \<and> start serve c w = (r, c', w') \<longrightarrow>
      (\<not> clean (trace w')) = (\<exists>e. r = Inl e \<and> transport_error e) \<and>
      (\<forall>e. r = Inl e \<and> transport_error e \<longrightarrow>
         raised_by (last (trace w')) = Some e \<and> clean (butlast (trace w')) \<and>
         (checkin_stage serve c w = (Inl e, c', w') \<and> c' = c \<or>
          (\<exists>c1 w1. checkin_stage serve c w = (Inr (), c1, w1) \<and>
             sign_in_stage serve c1 w1 = (Inl e, c', w') \<and> c' = c1) \<or>
          (\<exists>c1 w1 c2 w2. checkin_stage serve c w = (Inr (), c1, w1) \<and>
             sign_in_stage serve c1 w1 = (Inr (), c2, w2) \<and>
             forum_task serve c2 w2 = (Inl e, c', w') \<and> exceptions c' = exceptions c2)))) \<and>
   (checkin_stage serve c w = (Inl e, c1, w1) \<longrightarrow> c1 = c \<and> checkin serve w = (Inl e, w1)) \<and>
   (sign_in_stage serve c w = (Inl e, c1, w1) \<longrightarrow> c1 = c \<and> sign_in serve w = (Inl e, w1)) \<and>
   (forum_task serve c w = (Inl e, c1, w1) \<longrightarrow> exceptions c1 = exceptions c) \<and>
   (init tok u wi = (Inr c, w) \<and> start serve c w = (Inl e, c', w') \<and> transport_error e \<longrightarrow>
      main serve u tok wi =
        (1, w'\<lparr>trace := trace w' @ [Log LogException ''An unexpected error occurred:'']\<rparr>))"
proof (intro conjI impI)
  assume "serve (server w) ep d = (Unreachable, s')"
  then show "fst (make_request serve ep d w) = Inl RequestException"
    by (simp add: make_request_def)
next
  assume "serve (server w) ep d = (Unparseable, s')"
  then show "fst (make_request serve ep d w) = Inl ValidationError"
    by (simp add: make_request_def)
next
  assume a: "clean (trace w) \<and> start serve c w = (r, c', w')"
  then have st: "settled r (trace w')" using start_settled by blast
  show "(\<not> clean (trace w')) = (\<exists>e. r = Inl e \<and> transport_error e)"
    using st by (cases r) (auto simp: settled_def not_clean_last split: if_splits)
  show "\<forall>e. r = Inl e \<and> transport_error e \<longrightarrow>
         raised_by (last (trace w')) = Some e \<and> clean (butlast (trace w')) \<and>
         (checkin_stage serve c w = (Inl e, c', w') \<and> c' = c \<or>
          (\<exists>c1 w1. checkin_stage serve c w = (Inr (), c1, w1) \<and>
             sign_in_stage serve c1 w1 = (Inl e, c', w') \<and> c' = c1) \<or>
          (\<exists>c1 w1 c2 w2. checkin_stage serve c w = (Inr (), c1, w1) \<and>
             sign_in_stage serve c1 w1 = (Inr (), c2, w2) \<and>
             forum_task serve c2 w2 = (Inl e, c', w') \<and> exceptions c' = exceptions c2))"
  proof (intro allI impI)
    fix e assume e: "r = Inl e \<and> transport_error e"
    then have "\<not> is_workflow_failure e" by (cases e) simp_all
    with start_effects [of serve c w r c' w'] a e
    have s: "stages serve c w = (Inl e, c', w')" by simp
    have "checkin_stage serve c w = (Inl e, c', w') \<and> c' = c \<or>
          (\<exists>c1 w1. checkin_stage serve c w = (Inr (), c1, w1) \<and>
             sign_in_stage serve c1 w1 = (Inl e, c', w') \<and> c' = c1) \<or>
          (\<exists>c1 w1 c2 w2. checkin_stage serve c w = (Inr (), c1, w1) \<and>
             sign_in_stage serve c1 w1 = (Inr (), c2, w2) \<and>
             forum_task serve c2 w2 = (Inl e, c', w') \<and> exceptions c' = exceptions c2)"
      using stages_Inl [OF s]
    proof (elim disjE exE conjE)
      assume x: "checkin_stage serve c w = (Inl e, c', w')"
      with process_sign_action_Inl [OF x [unfolded checkin_stage_def]] show ?thesis by simp
    next
      fix c1 w1
      assume x: "checkin_stage serve c w = (Inr (), c1, w1)"
        "sign_in_stage serve c1 w1 = (Inl e, c', w')"
      with process_sign_action_Inl [OF x(2) [unfolded sign_in_stage_def]] show ?thesis by blast
    next
      fix c1 w1 c2 w2
      assume x: "checkin_stage serve c w = (Inr (), c1, w1)"
        "sign_in_stage serve c1 w1 = (Inr (), c2, w2)"
        "forum_task serve c2 w2 = (Inl e, c', w')"
      with forum_task_Inl [OF x(3)] show ?thesis by blast
    qed
    with st e show "raised_by (last (trace w')) = Some e \<and> clean (butlast (trace w')) \<and>
         (checkin_stage serve c w = (Inl e, c', w') \<and> c' = c \<or>
          (\<exists>c1 w1. checkin_stage serve c w = (Inr (), c1, w1) \<and>
             sign_in_stage serve c1 w1 = (Inl e, c', w') \<and> c' = c1) \<or>
          (\<exists>c1 w1 c2 w2. checkin_stage serve c w = (Inr (), c1, w1) \<and>
             sign_in_stage serve c1 w1 = (Inr (), c2, w2) \<and>
             forum_task serve c2 w2 = (Inl e, c', w') \<and> exceptions c' = exceptions c2))"
      by (simp add: settled_def)
  qed
next
  assume x: "checkin_stage serve c w = (Inl e, c1, w1)"
  from process_sign_action_Inl [OF x [unfolded checkin_stage_def]]
  show "c1 = c" "checkin serve w = (Inl e, w1)" by simp_all
next
  assume x: "sign_in_stage serve c w = (Inl e, c1, w1)"
  from process_sign_action_Inl [OF x [unfolded sign_in_stage_def]]
  show "c1 = c" "sign_in serve w = (Inl e, w1)" by simp_all
next
  assume "forum_task serve c w = (Inl e, c1, w1)"
  then show "exceptions c1 = exceptions c" by (rule forum_task_Inl)
next
  assume a: "init tok u wi = (Inr c, w) \<and> start serve c w = (Inl e, c', w') \<and> transport_error e"
  then have "\<not> is_workflow_failure e" by (cases e) simp_all
  with a show "main serve u tok wi =
        (1, w'\<lparr>trace := trace w' @ [Log LogException ''An unexpected error occurred:'']\<rparr>)"
    by (simp add: main_def main_except_other)
qed

theorem transport_failure_propagates_witness:
  "fst (make_request scripted SIGN_URL JNull (world0 [])) = Inl RequestException \<and>
   fst (make_request scripted SIGN_URL JNull (world0 [Unparseable])) = Inl ValidationError \<and>
   checkin_stage scripted client0 (world0 []) = start scripted client0 (world0 []) \<and>
   fst (snd (start scripted client0 (world0 []))) = client0 \<and>
   main scripted (Some ''10002345'') (Some ''t'') (world0 []) =
     (1, (world0 [])\<lparr>trace :=
        [Call FIND_ROLE_LIST_API_URL (JDict [(''gameId'', JInt 3)]) Unreachable,
         Log LogException ''An unexpected error occurred:'']\<rparr>)"
proof -
  define r0 where "r0 = fst (start scripted client0 (world0 []))"
  define c0 where "c0 = fst (snd (start scripted client0 (world0 [])))"
  define w0 where "w0 = snd (snd (start scripted client0 (world0 [])))"
  have run: "start scripted client0 (world0 []) = (r0, c0, w0)"
    by (simp add: r0_def c0_def w0_def)
  have r: "r0 = Inl RequestException"
    unfolding r0_def by (simp add: run_defs mock_defs)
  have w: "w0 = (world0 [])\<lparr>trace :=
        [Call FIND_ROLE_LIST_API_URL (JDict [(''gameId'', JInt 3)]) Unreachable]\<rparr>"
    unfolding w0_def by (simp add: run_defs mock_defs)
  have i: "init (Some ''t'') (Some ''10002345'') (world0 []) = (Inr client0, world0 ([] :: reply list))"
    by (simp add: init_def generate_fixed_string_def continuation_byte_def client0_def)
  have s1: "scripted (server (world0 [])) SIGN_URL JNull = (Unreachable, [])"
    by (simp add: world0_def)
  have s2: "scripted (server (world0 [Unparseable])) SIGN_URL JNull = (Unparseable, [])"
    by (simp add: world0_def)
  have c: "clean (trace (world0 ([] :: reply list)))" by (simp add: world0_def)
  have k: "fst (checkin_stage scripted client0 (world0 [])) = Inl RequestException"
    by (simp add: run_defs mock_defs)
  have nk: "checkin_stage scripted client0 (world0 []) \<noteq> (Inr (), c1, w1)" for c1 w1
    using k by auto
  note a = transport_failure_propagates [of scripted "world0 []" SIGN_URL JNull "[]" client0 r0 c0 w0
      RequestException _ _ "Some ''t''" "Some ''10002345''" "world0 []"]
  note b = transport_failure_propagates [of scripted "world0 [Unparseable]" SIGN_URL JNull "[]"]
  have 1: "fst (make_request scripted SIGN_URL JNull (world0 [])) = Inl RequestException"
    using a s1 by blast
  have 2: "fst (make_request scripted SIGN_URL JNull (world0 [Unparseable])) = Inl ValidationError"
    using b s2 by blast
  have "checkin_stage scripted client0 (world0 []) = (Inl RequestException, c0, w0) \<and> c0 = client0 \<or>
          (\<exists>c1 w1. checkin_stage scripted client0 (world0 []) = (Inr (), c1, w1) \<and>
             sign_in_stage scripted c1 w1 = (Inl RequestException, c0, w0) \<and> c0 = c1) \<or>
          (\<exists>c1 w1 c2 w2. checkin_stage scripted client0 (world0 []) = (Inr (), c1, w1) \<and>
             sign_in_stage scripted c1 w1 = (Inr (), c2, w2) \<and>
             forum_task scripted c2 w2 = (Inl RequestException, c0, w0) \<and> exceptions c0 = exceptions c2)"
    using c run r a by simp
  with nk have 3: "checkin_stage scripted client0 (world0 []) = (Inl RequestException, c0, w0)" "c0 = client0"
    by auto
  have 4: "main scripted (Some ''10002345'') (Some ''t'') (world0 []) =
        (1, w0\<lparr>trace := trace w0 @ [Log LogException ''An unexpected error occurred:'']\<rparr>)"
    using i run r a by simp
  show ?thesis using 1 2 3 4 run r w unfolding c0_def by simp
qed

text \<open>
  C4 fails as stated: with the first endpoint unreachable, the exception leaves the
  check-in stage and \<^verbatim>\<open>start\<close>; no failure is recorded for the stage, and neither the
  sign-in nor the forum task is attempted.
\<close>

theorem transport_failure_propagates_counterexample:
  "fst (start scripted client0 (world0 [])) = Inl RequestException \<and>
   exceptions (fst (snd (start scripted client0 (world0 [])))) = [] \<and>
   requests (trace (snd (snd (start scripted client0 (world0 []))))) = [FIND_ROLE_LIST_API_URL]"
  by (simp add: run_defs mock_defs)




text \<open>
  C9, as the code has it. When the forum listing succeeds and its \<^verbatim>\<open>postList\<close> is empty,
  \<^verbatim>\<open>get_post_detail\<close> raises \<^verbatim>\<open>IndexError\<close> on \<^verbatim>\<open>postList[0]\<close> before any post-detail call
  is made. Nothing catches it: \<^verbatim>\<open>forum_task\<close> raises it with the listing's success
  recorded and no failure appended, \<^verbatim>\<open>start\<close> raises it once the first two stages have
  returned, and \<^verbatim>\<open>main\<close> logs it and ends with status 1 without a notification.
\<close>

theorem empty_listing_raises:
  "(get_forum_list serve w = (Inr rsp, w1) \<and> truthy (success rsp) \<and>
    subscript_key (data rsp) ''postList'' = Inr (JList []) \<longrightarrow>
      forum_task serve c w =
        (Inl IndexError, record_success ''get_forum_list'' forum_list_success_message c, w1) \<and>
      (checkin_stage serve c0 w0 = (Inr (), c1, w2) \<and> sign_in_stage serve c1 w2 = (Inr (), c, w) \<longrightarrow>
         start serve c0 w0 =
           (Inl IndexError, record_success ''get_forum_list'' forum_list_success_message c, w1))) \<and>
   (init tok u wi = (Inr k, w0) \<and> start serve k w0 = (Inl IndexError, c', w') \<longrightarrow>
      main serve u tok wi =
        (1, w'\<lparr>trace := trace w' @ [Log LogException ''An unexpected error occurred:'']\<rparr>))"
proof (intro conjI impI)
  assume a: "get_forum_list serve w = (Inr rsp, w1) \<and> truthy (success rsp) \<and>
    subscript_key (data rsp) ''postList'' = Inr (JList [])"
  then have "get_post_detail serve rsp 0 w1 = (Inl IndexError, w1)"
    by (simp add: get_post_detail_def get_post_detail_data_def py_bind_def py_pure_def ebind_def)
  then have "forum_task_detail serve rsp c2 w1 = (Inl IndexError, c2, w1)" for c2
    by (simp add: forum_task_detail_def upt_rec)
  with a show f: "forum_task serve c w =
        (Inl IndexError, record_success ''get_forum_list'' forum_list_success_message c, w1)"
    by (simp add: forum_task_def)
  assume "checkin_stage serve c0 w0 = (Inr (), c1, w2) \<and> sign_in_stage serve c1 w2 = (Inr (), c, w)"
  with f show "start serve c0 w0 =
           (Inl IndexError, record_success ''get_forum_list'' forum_list_success_message c, w1)"
    by (simp add: start_def stage_then_def)
next
  assume "init tok u wi = (Inr k, w0) \<and> start serve k w0 = (Inl IndexError, c', w')"
  then show "main serve u tok wi =
        (1, w'\<lparr>trace := trace w' @ [Log LogException ''An unexpected error occurred:'']\<rparr>)"
    by (simp add: main_def)
qed

theorem empty_listing_raises_witness:
  "fst (start scripted client0 (world0 script_empty_listing)) = Inl IndexError \<and>
   fst (main scripted (Some ''10002345'') (Some ''t'') (world0 script_empty_listing)) = 1"
proof -
  define w0 where "w0 = world0 script_empty_listing"
  define c1 where "c1 = fst (snd (checkin_stage scripted client0 w0))"
  define w2 where "w2 = snd (snd (checkin_stage scripted client0 w0))"
  define c where "c = fst (snd (sign_in_stage scripted c1 w2))"
  define w where "w = snd (snd (sign_in_stage scripted c1 w2))"
  define w1 where "w1 = snd (get_forum_list scripted w)"
  define rsp where "rsp = ok_response (JDict [(''postList'', JList [])])"
  have "fst (checkin_stage scripted client0 w0) = Inr ()"
    unfolding w0_def by (simp add: run_defs mock_defs script_empty_listing_def)
  then have h1: "checkin_stage scripted client0 w0 = (Inr (), c1, w2)"
    unfolding c1_def w2_def by (metis prod.collapse)
  have "fst (sign_in_stage scripted c1 w2) = Inr ()"
    unfolding c1_def w2_def w0_def by (simp add: run_defs mock_defs script_empty_listing_def)
  then have h2: "sign_in_stage scripted c1 w2 = (Inr (), c, w)"
    unfolding c_def w_def by (metis prod.collapse)
  have "fst (get_forum_list scripted w) = Inr rsp"
    unfolding w_def c1_def w2_def w0_def rsp_def
    by (simp add: run_defs mock_defs script_empty_listing_def)
  then have h3: "get_forum_list scripted w = (Inr rsp, w1)"
    unfolding w1_def by (metis prod.collapse)
  have h4: "truthy (success rsp)" "subscript_key (data rsp) ''postList'' = Inr (JList [])"
    unfolding rsp_def by (simp_all add: truthy_def ok_response_def)
  have i: "init (Some ''t'') (Some ''10002345'') w0 = (Inr client0, w0)"
    by (simp add: init_def generate_fixed_string_def continuation_byte_def client0_def)
  note a = empty_listing_raises [of scripted w rsp w1 c client0 w0 c1 w2 "Some ''t''"
      "Some ''10002345''" w0 client0
      "record_success ''get_forum_list'' forum_list_success_message c" w1]
  have s: "start scripted client0 w0 =
      (Inl IndexError, record_success ''get_forum_list'' forum_list_success_message c, w1)"
    using h1 h2 h3 h4 a by blast
  then have "main scripted (Some ''10002345'') (Some ''t'') w0 =
      (1, w1\<lparr>trace := trace w1 @ [Log LogException ''An unexpected error occurred:'']\<rparr>)"
    using i a by blast
  with s show ?thesis unfolding w0_def by simp
qed

text \<open>
  C9 fails as stated: with an empty listing the run ends in \<^verbatim>\<open>IndexError\<close>, the list of
  failures stays empty, and \<^verbatim>\<open>main\<close> ends with status 1 and no notification.
\<close>

theorem empty_listing_raises_counterexample:
  "fst (start scripted client0 (world0 script_empty_listing)) = Inl IndexError \<and>
   exceptions (fst (snd (start scripted client0 (world0 script_empty_listing)))) = [] \<and>
   fst (main scripted (Some ''10002345'') (Some ''t'') (world0 script_empty_listing)) = 1 \<and>
   notifications
     (trace (snd (main scripted (Some ''10002345'') (Some ''t'') (world0 script_empty_listing)))) = [] \<and>
   last (trace (snd (main scripted (Some ''10002345'') (Some ''t'') (world0 script_empty_listing)))) =
     Log LogException ''An unexpected error occurred:''"
  by (simp add: run_defs mock_defs script_empty_listing_def)

text \<open>
  C10. Whatever the result mapping holds, the empty mapping included, \<^verbatim>\<open>msg\<close> is the joined
  success messages with \<open>!\<close> appended, so it is never the empty string and the guard
  \<^verbatim>\<open>if kurobbs.msg\<close> of \<^verbatim>\<open>main\<close> never fails: whenever the client is constructed and
  \<^verbatim>\<open>start\<close> returns without raising, \<^verbatim>\<open>main\<close> sends the notification with that text and
  ends with status 0.
\<close>

theorem msg_never_empty:
  "client_msg c = join '', '' (dict_values (result c)) @ ''!'' \<and>
   client_msg c \<noteq> [] \<and>
   client_msg (c\<lparr>result := []\<rparr>) = ''!'' \<and>
   (init tok u w = (Inr k, w0) \<and> start serve k w0 = (Inr x, k', w') \<longrightarrow>
      main serve u tok w = (0, send_notification (client_msg k') w'))"
  by (simp add: client_msg_def dict_values_def main_def)

theorem msg_never_empty_witness:
  "main mock_ok (Some ''10002345'') (Some ''t'') (world0 ()) =
     (0, send_notification
           (join '', '' [checkin_success_message, sign_in_success_message,
              forum_list_success_message, post_detail_success_message,
              share_success_message, like_success_message] @ ''!'')
           (snd (snd (start mock_ok client0 (world0 ())))))"
proof -
  have i: "init (Some ''t'') (Some ''10002345'') (world0 ()) = (Inr client0, world0 ())"
    by (simp add: init_def generate_fixed_string_def continuation_byte_def client0_def)
  have s: "fst (start mock_ok client0 (world0 ())) = Inr ()"
    by (simp add: run_defs mock_defs)
  have m: "client_msg (fst (snd (start mock_ok client0 (world0 ())))) =
      join '', '' [checkin_success_message, sign_in_success_message,
              forum_list_success_message, post_detail_success_message,
              share_success_message, like_success_message] @ ''!''"
    by (simp add: run_defs mock_defs)
  have "start mock_ok client0 (world0 ()) =
      (Inr (), fst (snd (start mock_ok client0 (world0 ()))), snd (snd (start mock_ok client0 (world0 ()))))"
    using s by (metis prod.collapse)
  with i msg_never_empty [of _ "Some ''t''" "Some ''10002345''" "world0 ()" client0 "world0 ()" mock_ok "()"
      "fst (snd (start mock_ok client0 (world0 ())))" "snd (snd (start mock_ok client0 (world0 ())))"]
  show ?thesis using m by simp
qed

end
